theory Spec2Isabelle
  imports Main "HOL-Library.Sublist" "HOL-Library.Word" "HOL-Library.AList"
begin

section \<open>The release script \<open>scripts/release.sh\<close>\<close>

text \<open>
  The script is modelled command by command. Files are lists of lines, shell variables are
  strings, and the answers of the outside world (the operator's replies, the exit status of
  \<open>git\<close>, \<open>cargo\<close>, \<open>gh\<close> and \<open>curl\<close>) are parameters of the functions that read them.
\<close>

subsection \<open>\<open>cmd_monitor\<close>: finding the workflow run (lines 126-144)\<close>

datatype monitor_error = RunNotFound

definition max_attempts :: nat where
  "max_attempts = 30"

text \<open>The loop condition \<open>[[ -z "$run_id" || "$run_id" == "null" ]]\<close>.\<close>

definition no_run :: "string \<Rightarrow> bool" where
  "no_run run_id = (run_id = [] \<or> run_id = ''null'')"

text \<open>
  The local variables of the loop: the attempt counter and the time spent in \<open>sleep 10\<close>.
\<close>

record discovery =
  attempts :: nat
  slept :: nat

text \<open>
  One call is one iteration of the \<open>while\<close> loop. \<open>gh_run_list n\<close> is what the pipeline
  \<open>gh run list ... | head -1 || echo ""\<close> prints when it runs after \<open>n\<close> unsuccessful
  attempts. An unsuccessful attempt increments the counter, dies when the counter has reached
  \<open>max_attempts\<close>, and sleeps 10 seconds otherwise.
\<close>

function find_run :: "(nat \<Rightarrow> string) \<Rightarrow> discovery \<Rightarrow> (monitor_error + string) \<times> discovery" where
  "find_run gh_run_list d =
     (let run_id = gh_run_list (attempts d) in
      if no_run run_id then
        (let d1 = d\<lparr>attempts := attempts d + 1\<rparr> in
         if attempts d1 \<ge> max_attempts then (Inl RunNotFound, d1)
         else find_run gh_run_list (d1\<lparr>slept := slept d1 + 10\<rparr>))
      else (Inr run_id, d))"
  by pat_completeness auto
termination
  by (relation "measure (\<lambda>(p, d). max_attempts - attempts d)") auto

declare find_run.simps [simp del]

definition discover :: "(nat \<Rightarrow> string) \<Rightarrow> (monitor_error + string) \<times> discovery" where
  "discover gh_run_list = find_run gh_run_list \<lparr>attempts = 0, slept = 0\<rparr>"

subsection \<open>\<open>cmd_check\<close>: verifying a release (lines 219-319)\<close>

definition EXPECTED_ARTIFACTS :: "string list" where
  "EXPECTED_ARTIFACTS =
     [''shelldeck-linux-x86_64.tar.gz'',
      ''shelldeck-macos-aarch64.zip'',
      ''shelldeck-windows-x86_64.zip'',
      ''ShellDeck-x86_64.AppImage'',
      ''SHA256SUMS.txt'']"

text \<open>
  A text is the list of its lines. A command substitution \<open>$(...)\<close> drops the newlines at the
  end of what the command prints, that is, the empty lines at the end.
\<close>

definition cmd_subst :: "string list \<Rightarrow> string list" where
  "cmd_subst ls = rev (dropWhile (\<lambda>l. l = []) (rev ls))"

text \<open>
  \<open>echo "$x"\<close> prints the text and a newline, so the empty text gives one empty line. A text
  that is a \<open>-\<close> followed by letters out of \<open>n\<close>, \<open>e\<close>, \<open>E\<close> only is taken as an option and
  not printed: nothing at all comes out when \<open>n\<close> is among the letters, one empty line
  otherwise.
\<close>

definition is_echo_option :: "string \<Rightarrow> bool" where
  "is_echo_option l =
     (case l of
        c # x # xs \<Rightarrow> c = CHR ''-'' \<and> list_all (\<lambda>y. y \<in> set ''neE'') (x # xs)
      | _ \<Rightarrow> False)"

definition echo :: "string list \<Rightarrow> string list" where
  "echo ls =
     (case ls of
        [] \<Rightarrow> [[]]
      | [l] \<Rightarrow> if is_echo_option l then (if CHR ''n'' \<in> set l then [] else [[]]) else [l]
      | _ \<Rightarrow> ls)"

text \<open>
  \<open>assets=$(... | jq -r '.assets[].name')\<close> holds the asset names one per line;
  \<open>echo_lines\<close> are the lines that \<open>echo "$assets"\<close> feeds into a pipe.
\<close>

definition echo_lines :: "string list \<Rightarrow> string list" where
  "echo_lines names = echo (cmd_subst names)"

text \<open>
  \<open>echo "$assets" | grep -qF pattern\<close> as the condition of an \<open>if\<close>, under \<open>set -o pipefail\<close>.
  \<open>grep -qF\<close> succeeds when some line contains the pattern as a fixed string, and it exits
  at the first such line. If \<open>echo\<close> has not written all of its text by then (a text that does
  not fit into the buffer of the pipe), it is killed by SIGPIPE, and with \<open>pipefail\<close> the
  pipeline fails although the pattern was found. Whether that happens is up to the system:
  \<open>sigpipe ls pattern\<close> says so for the lines \<open>ls\<close> and the pattern.
\<close>

definition grep_qF :: "(string list \<Rightarrow> string \<Rightarrow> bool) \<Rightarrow> string \<Rightarrow> string list \<Rightarrow> bool" where
  "grep_qF sigpipe pattern ls = (list_ex (\<lambda>l. sublist pattern l) ls \<and> \<not> sigpipe ls pattern)"

text \<open>
  \<open>read -r asset\<close> with the default \<open>IFS\<close> strips the blanks at both ends of the line.
\<close>

definition is_blank :: "char \<Rightarrow> bool" where
  "is_blank c = (c = CHR '' '' \<or> c = CHR 0x09)"

definition read_r :: "string \<Rightarrow> string" where
  "read_r l = rev (dropWhile is_blank (rev (dropWhile is_blank l)))"

record verification =
  found :: nat
  missing :: nat
  missing_names :: "string list"
  extra :: "string list"
  all_ok :: bool

text \<open>The \<open>for expected in "${EXPECTED_ARTIFACTS[@]}"\<close> loop (lines 249-258).\<close>

fun check_expected :: "(string list \<Rightarrow> string \<Rightarrow> bool) \<Rightarrow> string list \<Rightarrow> string list \<Rightarrow> verification \<Rightarrow> verification" where
  "check_expected sigpipe assets [] v = v"
| "check_expected sigpipe assets (expected # rest) v =
     check_expected sigpipe assets rest
       (if grep_qF sigpipe expected (echo_lines assets)
        then v\<lparr>found := found v + 1\<rparr>
        else v\<lparr>missing := missing v + 1,
               missing_names := missing_names v @ [expected],
               all_ok := False\<rparr>)"

text \<open>
  Lines 262-273: the \<open>while read -r asset\<close> loop reads the lines of \<open>echo "$assets"\<close>, and for
  each one that is not empty and not equal to an expected name it runs \<open>echo "$asset"\<close>; the
  output of the loop, through a command substitution, is \<open>$extra\<close>.
\<close>

definition extra_artifacts :: "string list \<Rightarrow> string list \<Rightarrow> string list" where
  "extra_artifacts expected assets =
     cmd_subst (concat (map (\<lambda>asset. echo [asset])
       (filter (\<lambda>asset. \<not> list_ex (\<lambda>exp. asset = exp) expected \<and> asset \<noteq> [])
          (map read_r (echo_lines assets)))))"

text \<open>The two download URLs that are probed (lines 290 and 300).\<close>

definition linux_url :: "string \<Rightarrow> string \<Rightarrow> string" where
  "linux_url repo tag =
     ''https://github.com/'' @ repo @ ''/releases/download/'' @ tag @ ''/shelldeck-linux-x86_64.tar.gz''"

definition macos_url :: "string \<Rightarrow> string \<Rightarrow> string" where
  "macos_url repo tag =
     ''https://github.com/'' @ repo @ ''/releases/download/'' @ tag @ ''/shelldeck-macos-aarch64.zip''"

text \<open>
  One probe: \<open>curl url\<close> is the status code that \<open>curl -sI -o /dev/null -w '%{http_code}'\<close>
  prints (\<open>000\<close> when it fails); any code other than \<open>200\<close> clears \<open>all_ok\<close>.
\<close>

definition probe :: "(string \<Rightarrow> string) \<Rightarrow> string \<Rightarrow> verification \<Rightarrow> verification" where
  "probe curl url v = (if curl url = ''200'' then v else v\<lparr>all_ok := False\<rparr>)"

text \<open>
  The body of \<open>cmd_check\<close> from line 242 on, for the list of expected names (the script's is
  \<open>EXPECTED_ARTIFACTS\<close>), the asset names of the release, the behaviour of the pipe and the
  answers of \<open>curl\<close>. The function returns 0 exactly when \<open>all_ok\<close> is still true at the end.
\<close>

definition verify :: "(string list \<Rightarrow> string \<Rightarrow> bool) \<Rightarrow> string list \<Rightarrow> string list \<Rightarrow> (string \<Rightarrow> string) \<Rightarrow> string \<Rightarrow> string \<Rightarrow> verification" where
  "verify sigpipe expected assets curl repo tag =
     (let v0 = \<lparr>found = 0, missing = 0, missing_names = [], extra = [], all_ok = True\<rparr>;
          v1 = check_expected sigpipe assets expected v0;
          v2 = v1\<lparr>extra := extra_artifacts expected assets\<rparr>;
          v3 = probe curl (linux_url repo tag) v2
      in probe curl (macos_url repo tag) v3)"

datatype check_error = NoTag | NoRelease

text \<open>
  \<open>cmd_check\<close> itself: the tag argument defaults to the latest tag, \<open>gh release view\<close> gives the
  asset names of the release or fails.
\<close>

definition cmd_check :: "(string list \<Rightarrow> string \<Rightarrow> bool) \<Rightarrow> string \<Rightarrow> string \<Rightarrow> (string \<Rightarrow> string list option) \<Rightarrow> (string \<Rightarrow> string) \<Rightarrow> string \<Rightarrow> check_error + verification" where
  "cmd_check sigpipe arg latest gh_release_view curl repo =
     (let tag = (if arg = [] then latest else arg) in
      if tag = [] then Inl NoTag
      else case gh_release_view tag of
             None \<Rightarrow> Inl NoRelease
           | Some assets \<Rightarrow> Inr (verify sigpipe EXPECTED_ARTIFACTS assets curl repo tag))"

subsection \<open>Reading the version: \<open>current_version\<close> (lines 59-61)\<close>

definition dq :: char where
  "dq = CHR 0x22"

text \<open>\<open>grep '^version'\<close>: the lines that begin with \<open>version\<close>.\<close>

definition grep_version :: "string list \<Rightarrow> string list" where
  "grep_version ls = filter (prefix ''version'') ls"

text \<open>
  \<open>sed 's/.*"\(.*\)".*/\1/'\<close>: a line with at least two double quotes is replaced by the text
  between its last two double quotes (both \<open>.*\<close> before the group are greedy); any other line
  is printed as it is.
\<close>

definition sed_extract :: "string \<Rightarrow> string" where
  "sed_extract l =
     (let r = rev l;
          r1 = drop 1 (dropWhile (\<lambda>c. c \<noteq> dq) r)
      in if dq \<in> set r \<and> dq \<in> set r1 then rev (takeWhile (\<lambda>c. c \<noteq> dq) r1) else l)"

text \<open>
  What the pipeline of \<open>current_version\<close> prints for the manifest (\<open>None\<close>: there is no file
  \<open>Cargo.toml\<close>), when no process of the pipeline is killed. The result is \<open>None\<close> when the
  pipeline fails: \<open>grep\<close> finds no line, or no file, and \<open>pipefail\<close> is set. (How the pipeline
  can fail by a signal is in \<open>read_current_version\<close> below.)
\<close>

definition current_version :: "string list option \<Rightarrow> string option" where
  "current_version manifest =
     (case manifest of
        None \<Rightarrow> None
      | Some ls \<Rightarrow>
          (case grep_version ls of
             [] \<Rightarrow> None
           | l # _ \<Rightarrow> Some (sed_extract l)))"

text \<open>
  \<open>grep '^version' ... | head -1\<close> under \<open>pipefail\<close>: \<open>head\<close> exits after the first line, and
  when \<open>grep\<close> has more lines to write after that it can be killed by SIGPIPE; the pipeline
  then fails although a version has been printed. \<open>killed\<close> says whether the system does
  that; it can only happen with two or more lines that begin with \<open>version\<close>.
\<close>

definition read_current_version :: "bool \<Rightarrow> string list option \<Rightarrow> string option" where
  "read_current_version killed manifest =
     (case manifest of
        None \<Rightarrow> None
      | Some ls \<Rightarrow>
          if killed \<and> 1 < length (grep_version ls) then None
          else current_version (Some ls))"

subsection \<open>The bump (lines 384-393)\<close>

text \<open>
  \<open>IFS='.' read -r MAJOR MINOR PATCH\<close>: the first two fields end at a dot, the last variable
  takes the rest of the line; when the rest is one field followed by a single dot, that dot is
  dropped.
\<close>

record version_vars =
  MAJOR :: string
  MINOR :: string
  PATCH :: string

definition not_dot :: "char \<Rightarrow> bool" where
  "not_dot c = (c \<noteq> CHR ''.'')"

definition read_version :: "string \<Rightarrow> version_vars" where
  "read_version s =
     (let r1 = drop 1 (dropWhile not_dot s);
          r2 = drop 1 (dropWhile not_dot r1)
      in \<lparr>MAJOR = takeWhile not_dot s,
          MINOR = takeWhile not_dot r1,
          PATCH = (if r2 \<noteq> [] \<and> last r2 = CHR ''.'' \<and> list_all not_dot (butlast r2)
                   then butlast r2 else r2)\<rparr>)"

text \<open>
  Shell arithmetic works on 64-bit signed integers and wraps around silently, also while it
  reads a numeral. In \<open>$((PATCH + 1))\<close> the shell evaluates the text of the variable. What it
  makes of a text that is empty or a string of digits is fixed: the empty text is 0, a string
  of digits that begins with \<open>0\<close> is an octal numeral, and the error
  \<open>value too great for base\<close> when it has a digit 8 or 9, any other string of digits is a
  decimal numeral. Every other text is an expression for the shell.
\<close>

datatype literal = Number "64 word" | TooGreatForBase | Expression

definition is_digit :: "char \<Rightarrow> bool" where
  "is_digit c = (48 \<le> (of_char c :: nat) \<and> (of_char c :: nat) \<le> 57)"

definition digit_val :: "char \<Rightarrow> nat" where
  "digit_val c = of_char c - 48"

definition numeral_val :: "nat \<Rightarrow> string \<Rightarrow> 64 word" where
  "numeral_val base s = foldl (\<lambda>acc c. acc * of_nat base + of_nat (digit_val c)) 0 s"

definition arith_value :: "string \<Rightarrow> literal" where
  "arith_value s =
     (if s = [] then Number 0
      else if \<not> list_all is_digit s then Expression
      else if hd s = CHR ''0'' then
        (if list_all (\<lambda>c. digit_val c < 8) s then Number (numeral_val 8 s)
         else TooGreatForBase)
      else Number (numeral_val 10 s))"

text \<open>The decimal text of a number, as \<open>$((...))\<close> prints it.\<close>

definition digit_char :: "nat \<Rightarrow> char" where
  "digit_char d = ''0123456789'' ! d"

fun digits_of :: "nat \<Rightarrow> string" where
  "digits_of n =
     (if n < 10 then [digit_char n]
      else digits_of (n div 10) @ [digit_char (n mod 10)])"

declare digits_of.simps [simp del]

definition show_int :: "int \<Rightarrow> string" where
  "show_int i = (if i < 0 then CHR ''-'' # digits_of (nat (- i)) else digits_of (nat i))"

text \<open>
  \<open>BUMP_TYPE\<close> is set by the argument parser to one of three words. Without such an argument
  it is \<open>patch\<close>, unless the script inherits a variable \<open>BUMP_TYPE\<close> from its environment; with
  any other word in it, no branch of the \<open>case\<close> command of lines 386-390 is taken and the
  variables stay as they were read (\<open>Inherited\<close>).
\<close>

datatype bump_type = Patch | Minor | Major | Inherited

text \<open>The variable that the branch of the \<open>case\<close> command evaluates and increments.\<close>

definition component :: "bump_type \<Rightarrow> version_vars \<Rightarrow> string" where
  "component bt v =
     (case bt of Patch \<Rightarrow> PATCH v | Minor \<Rightarrow> MINOR v | Major \<Rightarrow> MAJOR v | Inherited \<Rightarrow> [])"

text \<open>
  The branch of the \<open>case\<close> command (lines 387-389) when the variable has evaluated to \<open>n\<close>:
  the text of \<open>n + 1\<close> is assigned, and the lower components are set to \<open>0\<close>.
\<close>

definition bump :: "bump_type \<Rightarrow> version_vars \<Rightarrow> 64 word \<Rightarrow> version_vars" where
  "bump bt v n =
     (case bt of
        Patch \<Rightarrow> v\<lparr>PATCH := show_int (sint (n + 1))\<rparr>
      | Minor \<Rightarrow> v\<lparr>MINOR := show_int (sint (n + 1)), PATCH := ''0''\<rparr>
      | Major \<Rightarrow> v\<lparr>MAJOR := show_int (sint (n + 1)), MINOR := ''0'', PATCH := ''0''\<rparr>
      | Inherited \<Rightarrow> v)"

text \<open>\<open>"${MAJOR}.${MINOR}.${PATCH}"\<close>.\<close>

definition dotted :: "version_vars \<Rightarrow> string" where
  "dotted v = MAJOR v @ ''.'' @ MINOR v @ ''.'' @ PATCH v"

text \<open>
  \<open>NEW_VERSION\<close> from \<open>CURRENT_VERSION\<close>, as far as it does not depend on anything else. For a
  numeral it is the bumped version. After the error \<open>value too great for base\<close> the shell
  gives up the \<open>case\<close> command and the script goes on at line 392 with the three variables as
  they were read. For an expression the result is up to the shell: \<open>Inl\<close> with the text that
  the shell has to evaluate.
\<close>

definition new_version :: "bump_type \<Rightarrow> string \<Rightarrow> string + string" where
  "new_version bt cur =
     (let v = read_version cur in
      if bt = Inherited then Inr (dotted v)
      else case arith_value (component bt v) of
             Number n \<Rightarrow> Inr (dotted (bump bt v n))
           | TooGreatForBase \<Rightarrow> Inr (dotted v)
           | Expression \<Rightarrow> Inl (component bt v))"

text \<open>The text \<open>X.Y.Z\<close> of a version with the numbers \<open>X\<close>, \<open>Y\<close> and \<open>Z\<close>.\<close>

definition version_text :: "nat \<Rightarrow> nat \<Rightarrow> nat \<Rightarrow> string" where
  "version_text x y z = digits_of x @ ''.'' @ digits_of y @ ''.'' @ digits_of z"

subsection \<open>Writing the version (line 449)\<close>

text \<open>
  \<open>sed -i "s/^version = \"$CURRENT_VERSION\"/version = \"$NEW_VERSION\"/"\<close>. The current
  version is spliced into the regular expression as it is, so each of its dots matches any
  character; the other characters of a version (digits, letters, blanks, \<open>-\<close>) match
  themselves. The command is applied to every line of the file. (A current version with one of
  the characters \<open>* [ \ /\<close>, or a new version with \<open>& \ /\<close>, makes another command of
  it; that case is in \<open>write_version\<close> below.)
\<close>

fun match_prefix :: "string \<Rightarrow> string \<Rightarrow> string option" where
  "match_prefix [] l = Some l"
| "match_prefix (p # ps) [] = None"
| "match_prefix (p # ps) (c # cs) =
     (if p = CHR ''.'' \<or> p = c then match_prefix ps cs else None)"

definition version_field :: "string \<Rightarrow> string" where
  "version_field v = ''version = '' @ [dq] @ v @ [dq]"

definition sed_line :: "string \<Rightarrow> string \<Rightarrow> string \<Rightarrow> string" where
  "sed_line cur new l =
     (case match_prefix (version_field cur) l of
        None \<Rightarrow> l
      | Some rest \<Rightarrow> version_field new @ rest)"

definition sed_version :: "string \<Rightarrow> string \<Rightarrow> string list \<Rightarrow> string list" where
  "sed_version cur new ls = map (sed_line cur new) ls"

subsection \<open>The release command (lines 379-506)\<close>

text \<open>
  The repository as the script sees it. A tree maps the path of a file to its lines; the
  working tree, the index and the tree of the \<open>HEAD\<close> commit are trees, and \<open>ignored\<close> are the
  paths that the ignore rules exclude. \<open>tags\<close> are the local tags, \<open>tracking\<close> the
  remote-tracking branches \<open>origin/...\<close>; \<open>origin_heads\<close> and \<open>origin_tags\<close> are the branches and
  tags of the remote repository itself. \<open>trace\<close> lists, in order, the commands of the script
  that have changed something and succeeded.
\<close>

type_synonym tree = "(string \<times> string list) list"
type_synonym commit = nat
type_synonym refs = "(string \<times> commit) list"

datatype event =
    FetchTags | Fetch | WriteVersion | CargoCheck | Checkout
  | GitAdd | GitCommit string | GitTag string | GitPush | GitPushTag string

record world =
  worktree :: tree
  index :: tree
  head_tree :: tree
  ignored :: "string list"
  head :: commit
  branch :: string
  tags :: refs
  tracking :: refs
  origin_heads :: refs
  origin_tags :: refs
  trace :: "event list"

text \<open>
  What the shell makes of an expression in \<open>$((...))\<close>: a value; an error message, after
  which it gives up the command and the script goes on; or the end of the script (an unset
  variable under \<open>set -u\<close>).
\<close>

datatype shell_outcome = Value "64 word" | Message | Exit

text \<open>
  What the outside world answers during one run.
  \<^item> \<open>grep_killed\<close>: whether \<open>grep\<close> is killed in the pipeline of \<open>current_version\<close>.
  \<^item> \<open>shell_arith\<close>: the shell's evaluation of a text that is an expression, given the three
    variables and the repository: the outcome, the three variables afterwards (an expression
    can assign to them) and the repository afterwards (an expression can run commands, in a
    subscript). The other variables of the script are taken to be left alone.
  \<^item> \<open>odd_local_tag\<close>, \<open>odd_remote_tag\<close>: what the tag checks of lines 415 and 421 find when the
    tag has characters that are special in the patterns of \<open>git tag -l\<close> or \<open>grep\<close>.
  \<^item> \<open>fetch_tags_ok\<close>, \<open>ls_remote_ok\<close>, \<open>fetch_ok\<close>, \<open>push_ok\<close>, \<open>push_tag_ok\<close>: whether the
    network commands succeed; \<open>merge_base\<close>: the merge base that git computes.
  \<^item> \<open>sed_special\<close>: what \<open>sed\<close> makes of the manifest when the versions have characters that
    are special in its command (\<open>None\<close>: it fails).
  \<^item> \<open>cargo_check\<close>: what \<open>cargo check\<close> does (\<open>None\<close>: it fails; otherwise the lines of
    \<open>Cargo.lock\<close> afterwards); \<open>git_log_ok\<close>: whether the pipeline that lists the recent
    commits succeeds.
  \<^item> the operator's replies (\<open>None\<close>: end of input).
  \<^item> \<open>commit_ok\<close>, \<open>tag_ok\<close>: whether \<open>git commit\<close> and \<open>git tag\<close> are accepted (hooks,
    reference names); \<open>new_commit\<close>: the commit that \<open>git commit\<close> creates.
\<close>

record env =
  grep_killed :: bool
  shell_arith :: "string \<Rightarrow> version_vars \<Rightarrow> world \<Rightarrow> shell_outcome \<times> version_vars \<times> world"
  odd_local_tag :: bool
  odd_remote_tag :: bool
  fetch_tags_ok :: bool
  ls_remote_ok :: bool
  fetch_ok :: bool
  merge_base :: "commit \<Rightarrow> commit \<Rightarrow> commit option"
  sed_special :: "string \<Rightarrow> string \<Rightarrow> string list \<Rightarrow> string list option"
  cargo_check :: "tree \<Rightarrow> string list option"
  git_log_ok :: bool
  reply_branch :: "string option"
  reply_message :: "string option"
  reply_push :: "string option"
  commit_ok :: bool
  new_commit :: commit
  tag_ok :: bool
  push_ok :: bool
  push_tag_ok :: bool

datatype prompt = BranchPrompt | MessagePrompt | PushPrompt

text \<open>
  How a run can end before its end. \<open>NoVersionLine\<close>: the pipeline of line 379 has failed
  (under \<open>set -e\<close>); \<open>ShellExit\<close>: the shell has ended the script in lines 387-389.
\<close>

datatype error =
    NoVersionLine | EmptyVersion | ShellExit
  | DirtyWorkingTree | StagedChanges | LocalTagExists | RemoteTagExists
  | PromptClosed prompt | BranchDeclined | FetchFailed | RemoteDiverged
  | SedFailed | CargoCheckFailed | LogFailed | PushDeclined
  | AddFailed | CommitFailed | TagFailed | PushFailed | PushTagFailed

text \<open>
  A step of the script ends the run with an error (\<open>die\<close>, \<open>exit 1\<close>, or a failing command
  under \<open>set -e\<close>) or lets it go on; either way it leaves a repository behind.
\<close>

type_synonym step = "world \<Rightarrow> error option \<times> world"

fun run :: "step list \<Rightarrow> step" where
  "run [] w = (None, w)"
| "run (f # fs) w =
     (case f w of
        (Some err, w') \<Rightarrow> (Some err, w')
      | (None, w') \<Rightarrow> run fs w')"

text \<open>
  Lines 384-392 for the text of \<open>CURRENT_VERSION\<close>: the new version, or \<open>None\<close> when the shell
  ends the script, and the repository afterwards. Only an expression can change anything;
  what it runs is not a command of the script and leaves the trace as it is.
\<close>

definition bump_version :: "env \<Rightarrow> bump_type \<Rightarrow> string \<Rightarrow> world \<Rightarrow> string option \<times> world" where
  "bump_version e bt cur w =
     (case new_version bt cur of
        Inr new \<Rightarrow> (Some new, w)
      | Inl t \<Rightarrow>
          (case shell_arith e t (read_version cur) w of
             (Value n, v, w1) \<Rightarrow> (Some (dotted (bump bt v n)), w1\<lparr>trace := trace w\<rparr>)
           | (Message, v, w1) \<Rightarrow> (Some (dotted v), w1\<lparr>trace := trace w\<rparr>)
           | (Exit, v, w1) \<Rightarrow> (None, w1\<lparr>trace := trace w\<rparr>)))"

text \<open>
  \<open>git diff --quiet -- ':!Cargo.toml' ':!Cargo.lock'\<close>: no tracked file other than the two
  differs between the working tree and the index.
\<close>

definition git_diff_quiet :: "world \<Rightarrow> bool" where
  "git_diff_quiet w =
     list_all (\<lambda>p. p = ''Cargo.toml'' \<or> p = ''Cargo.lock'' \<or>
                    map_of (worktree w) p = map_of (index w) p)
       (map fst (index w))"

text \<open>\<open>git diff --cached --quiet\<close>: the index is the tree of \<open>HEAD\<close>.\<close>

definition git_diff_cached_quiet :: "world \<Rightarrow> bool" where
  "git_diff_cached_quiet w =
     list_all (\<lambda>p. map_of (index w) p = map_of (head_tree w) p)
       (map fst (index w) @ map fst (head_tree w))"

definition check_clean :: step where
  "check_clean w =
     (if \<not> git_diff_quiet w then (Some DirtyWorkingTree, w)
      else if \<not> git_diff_cached_quiet w then (Some StagedChanges, w)
      else (None, w))"

text \<open>
  The tag checks give the tag to \<open>git tag -l\<close> as a glob pattern and to \<open>grep -q\<close> as a regular
  expression. For a tag without the characters \<open>* ? [ \ ^ $\<close> both amount to asking for the
  tag itself (a dot of the tag matches the dot).
\<close>

definition odd_tag :: "string \<Rightarrow> bool" where
  "odd_tag tag = list_ex (\<lambda>c. c \<in> set [CHR ''*'', CHR ''?'', CHR ''['', CHR 0x5C, CHR ''^'', CHR ''$'']) tag"

text \<open>Line 415: \<open>git tag -l "$TAG" | grep -q "$TAG"\<close>.\<close>

definition check_local_tag :: "env \<Rightarrow> string \<Rightarrow> step" where
  "check_local_tag e tag w =
     (if (if odd_tag tag then odd_local_tag e else map_of (tags w) tag \<noteq> None)
      then (Some LocalTagExists, w) else (None, w))"

text \<open>
  \<open>git fetch --tags --quiet 2>/dev/null || true\<close>: when it succeeds, the tags of the remote
  that are not local tags yet become local tags, and the remote-tracking branches are
  brought up to date. A failure is ignored.
\<close>

definition git_fetch_tags :: "env \<Rightarrow> step" where
  "git_fetch_tags e w =
     (if fetch_tags_ok e then
        (None, w\<lparr>tags := tags w @ filter (\<lambda>(t, c). map_of (tags w) t = None) (origin_tags w),
                  tracking := origin_heads w,
                  trace := trace w @ [FetchTags]\<rparr>)
      else (None, w))"

text \<open>\<open>git ls-remote --tags origin "refs/tags/$TAG" 2>/dev/null | grep -q "$TAG"\<close>.\<close>

definition check_remote_tag :: "env \<Rightarrow> string \<Rightarrow> step" where
  "check_remote_tag e tag w =
     (if (if odd_tag tag then odd_remote_tag e
          else ls_remote_ok e \<and> map_of (origin_tags w) tag \<noteq> None)
      then (Some RemoteTagExists, w) else (None, w))"

text \<open>
  The branch check. \<open>read -rp ... CONFIRM\<close> strips the blanks around the reply, and the run
  goes on only for \<open>y\<close> or \<open>Y\<close>.
\<close>

definition check_branch :: "env \<Rightarrow> step" where
  "check_branch e w =
     (if branch w \<noteq> ''main'' then
        (case reply_branch e of
           None \<Rightarrow> (Some (PromptClosed BranchPrompt), w)
         | Some r \<Rightarrow>
             if read_r r = ''y'' \<or> read_r r = ''Y'' then (None, w)
             else (Some BranchDeclined, w))
      else (None, w))"

text \<open>\<open>git fetch --quiet\<close>, under \<open>set -e\<close>.\<close>

definition git_fetch :: "env \<Rightarrow> step" where
  "git_fetch e w =
     (if fetch_ok e then
        (None, w\<lparr>tracking := origin_heads w, trace := trace w @ [Fetch]\<rparr>)
      else (Some FetchFailed, w))"

text \<open>
  Lines 436-443: \<open>LOCAL\<close> is \<open>HEAD\<close>, \<open>REMOTE\<close> is \<open>origin/main\<close> (empty when there is none);
  when they differ, the merge base has to be \<open>LOCAL\<close>.
\<close>

definition check_up_to_date :: "env \<Rightarrow> step" where
  "check_up_to_date e w =
     (case map_of (tracking w) ''main'' of
        None \<Rightarrow> (None, w)
      | Some remote \<Rightarrow>
          if head w \<noteq> remote \<and> merge_base e (head w) remote \<noteq> Some (head w)
          then (Some RemoteDiverged, w)
          else (None, w))"

definition preflight :: "env \<Rightarrow> string \<Rightarrow> step list" where
  "preflight e tag =
     [check_clean, check_local_tag e tag, git_fetch_tags e, check_remote_tag e tag,
      check_branch e, git_fetch e, check_up_to_date e]"

text \<open>
  Line 449: \<open>sed -i\<close> rewrites \<open>Cargo.toml\<close> in the working tree. \<open>sed_version\<close> is what the
  command does when the current version has none of the characters \<open>* [ \ /\<close> and the new
  version none of \<open>& \ /\<close>; with one of them the command is another one, or none.
\<close>

definition sed_plain :: "string \<Rightarrow> string \<Rightarrow> bool" where
  "sed_plain cur new =
     (\<not> list_ex (\<lambda>c. c \<in> set [CHR ''*'', CHR ''['', CHR 0x5C, CHR ''/'']) cur \<and>
      \<not> list_ex (\<lambda>c. c \<in> set [CHR ''&'', CHR 0x5C, CHR ''/'']) new)"

definition write_version :: "env \<Rightarrow> string \<Rightarrow> string \<Rightarrow> step" where
  "write_version e cur new w =
     (case map_of (worktree w) ''Cargo.toml'' of
        None \<Rightarrow> (Some SedFailed, w)
      | Some ls \<Rightarrow>
          (case (if sed_plain cur new then Some (sed_version cur new ls)
                 else sed_special e cur new ls) of
             None \<Rightarrow> (Some SedFailed, w)
           | Some ls' \<Rightarrow>
               (None, w\<lparr>worktree := AList.update ''Cargo.toml'' ls' (worktree w),
                         trace := trace w @ [WriteVersion]\<rparr>)))"

text \<open>Lines 452-458: \<open>cargo check\<close>, which brings \<open>Cargo.lock\<close> up to date.\<close>

definition run_cargo_check :: "env \<Rightarrow> step" where
  "run_cargo_check e w =
     (case cargo_check e (worktree w) of
        None \<Rightarrow> (Some CargoCheckFailed, w)
      | Some lock \<Rightarrow>
          (None, w\<lparr>worktree := AList.update ''Cargo.lock'' lock (worktree w),
                    trace := trace w @ [CargoCheck]\<rparr>))"

text \<open>
  Lines 463-468: \<open>git log --oneline ... | head -10 | sed ...\<close>, a pipeline under \<open>pipefail\<close> and
  \<open>set -e\<close>.
\<close>

definition show_log :: "env \<Rightarrow> step" where
  "show_log e w = (if git_log_ok e then (None, w) else (Some LogFailed, w))"

text \<open>Lines 471-478: the commit message.\<close>

definition starts_v_digit :: "string \<Rightarrow> bool" where
  "starts_v_digit s =
     (case s of c1 # c2 # _ \<Rightarrow> c1 = CHR ''v'' \<and> is_digit c2 | _ \<Rightarrow> False)"

definition commit_message :: "string \<Rightarrow> string \<Rightarrow> string" where
  "commit_message tag user_msg =
     (let default_msg = tag @ '': '';
          msg = (if user_msg = [] then default_msg else user_msg)
      in if \<not> starts_v_digit msg then tag @ '': '' @ msg else msg)"

definition ask_message :: "env \<Rightarrow> step" where
  "ask_message e w =
     (case reply_message e of
        None \<Rightarrow> (Some (PromptClosed MessagePrompt), w)
      | Some r \<Rightarrow> (None, w))"

definition user_msg :: "env \<Rightarrow> string" where
  "user_msg e = (case reply_message e of None \<Rightarrow> [] | Some r \<Rightarrow> read_r r)"

text \<open>
  \<open>git checkout -- Cargo.toml Cargo.lock 2>/dev/null\<close>: both files are restored from the
  index; when one of them is not in the index, git reports the path and restores nothing.
\<close>

definition checkout_manifest :: "world \<Rightarrow> world" where
  "checkout_manifest w =
     (case (map_of (index w) ''Cargo.toml'', map_of (index w) ''Cargo.lock'') of
        (Some m, Some l) \<Rightarrow>
          w\<lparr>worktree := AList.update ''Cargo.lock'' l (AList.update ''Cargo.toml'' m (worktree w)),
            trace := trace w @ [Checkout]\<rparr>
      | _ \<Rightarrow> w)"

text \<open>Lines 488-489: the final confirmation; \<open>n\<close> or \<open>N\<close> reverts and exits.\<close>

definition final_confirm :: "env \<Rightarrow> step" where
  "final_confirm e w =
     (case reply_push e of
        None \<Rightarrow> (Some (PromptClosed PushPrompt), w)
      | Some r \<Rightarrow>
          if read_r r = ''n'' \<or> read_r r = ''N'' then (Some PushDeclined, checkout_manifest w)
          else (None, w))"

text \<open>
  \<open>git add Cargo.toml Cargo.lock\<close>. A path that is neither in the working tree nor in the
  index ends the command before anything is staged. Otherwise each file is staged as it is in
  the working tree (a tracked file that is gone is staged as deleted), except a file that is
  ignored and not tracked: git names it, stages the other one and fails.
\<close>

definition stage :: "string \<Rightarrow> world \<Rightarrow> world" where
  "stage p w =
     (case map_of (worktree w) p of
        Some c \<Rightarrow> w\<lparr>index := AList.update p c (index w)\<rparr>
      | None \<Rightarrow> w\<lparr>index := AList.delete p (index w)\<rparr>)"

definition known :: "string \<Rightarrow> world \<Rightarrow> bool" where
  "known p w = (map_of (worktree w) p \<noteq> None \<or> map_of (index w) p \<noteq> None)"

definition refused :: "string \<Rightarrow> world \<Rightarrow> bool" where
  "refused p w = (p \<in> set (ignored w) \<and> map_of (index w) p = None)"

definition git_add :: step where
  "git_add w =
     (if known ''Cargo.toml'' w \<and> known ''Cargo.lock'' w then
        (if refused ''Cargo.toml'' w \<and> refused ''Cargo.lock'' w then (Some AddFailed, w)
         else if refused ''Cargo.toml'' w then (Some AddFailed, stage ''Cargo.lock'' w)
         else if refused ''Cargo.lock'' w then (Some AddFailed, stage ''Cargo.toml'' w)
         else (None, (stage ''Cargo.lock'' (stage ''Cargo.toml'' w))\<lparr>trace := trace w @ [GitAdd]\<rparr>))
      else (Some AddFailed, w))"

text \<open>\<open>git commit -m "$COMMIT_MSG"\<close>: fails when nothing is staged.\<close>

definition git_commit :: "env \<Rightarrow> string \<Rightarrow> step" where
  "git_commit e msg w =
     (if git_diff_cached_quiet w \<or> \<not> commit_ok e then (Some CommitFailed, w)
      else (None, w\<lparr>head := new_commit e, head_tree := index w,
                     trace := trace w @ [GitCommit msg]\<rparr>))"

text \<open>\<open>git tag "$TAG"\<close>: fails when the tag exists.\<close>

definition git_tag :: "env \<Rightarrow> string \<Rightarrow> step" where
  "git_tag e tag w =
     (if map_of (tags w) tag \<noteq> None \<or> \<not> tag_ok e then (Some TagFailed, w)
      else (None, w\<lparr>tags := tags w @ [(tag, head w)], trace := trace w @ [GitTag tag]\<rparr>))"

text \<open>\<open>git push\<close>: the current branch goes to the remote.\<close>

definition git_push :: "env \<Rightarrow> step" where
  "git_push e w =
     (if \<not> push_ok e then (Some PushFailed, w)
      else (None, w\<lparr>origin_heads := AList.update (branch w) (head w) (origin_heads w),
                     tracking := AList.update (branch w) (head w) (tracking w),
                     trace := trace w @ [GitPush]\<rparr>))"

text \<open>\<open>git push origin "$TAG"\<close>: rejected when the remote has the tag on another commit.\<close>

definition git_push_tag :: "env \<Rightarrow> string \<Rightarrow> step" where
  "git_push_tag e tag w =
     (case map_of (tags w) tag of
        None \<Rightarrow> (Some PushTagFailed, w)
      | Some c \<Rightarrow>
          if \<not> push_tag_ok e \<or> (map_of (origin_tags w) tag \<noteq> None \<and> map_of (origin_tags w) tag \<noteq> Some c)
          then (Some PushTagFailed, w)
          else (None, w\<lparr>origin_tags := AList.update tag c (origin_tags w),
                         trace := trace w @ [GitPushTag tag]\<rparr>))"

definition transaction :: "env \<Rightarrow> string \<Rightarrow> string \<Rightarrow> step list" where
  "transaction e tag msg =
     [git_add, git_commit e msg, git_tag e tag, git_push e, git_push_tag e tag]"

text \<open>
  The steps of the release command from line 405 to \<open>Release $TAG pushed successfully\<close>, for
  the current and the new version: the safety checks, the version update with the build
  check, the list of commits, the two prompts and the transaction.
\<close>

definition release_steps :: "env \<Rightarrow> string \<Rightarrow> string \<Rightarrow> step list" where
  "release_steps e cur new =
     preflight e (''v'' @ new)
     @ [write_version e cur new, run_cargo_check e, show_log e, ask_message e, final_confirm e]
     @ transaction e (''v'' @ new) (commit_message (''v'' @ new) (user_msg e))"

text \<open>The release command: the version is read and bumped first (lines 379-393).\<close>

definition release :: "env \<Rightarrow> bump_type \<Rightarrow> step" where
  "release e bt w =
     (case read_current_version (grep_killed e) (map_of (worktree w) ''Cargo.toml'') of
        None \<Rightarrow> (Some NoVersionLine, w)
      | Some cur \<Rightarrow>
          if cur = [] then (Some EmptyVersion, w)
          else (case bump_version e bt cur w of
                  (None, w1) \<Rightarrow> (Some ShellExit, w1)
                | (Some new, w1) \<Rightarrow> run (release_steps e cur new) w1))"

text \<open>The repository when the version has been read and bumped, at line 393.\<close>

definition bump_world :: "env \<Rightarrow> bump_type \<Rightarrow> world \<Rightarrow> world" where
  "bump_world e bt w =
     (case read_current_version (grep_killed e) (map_of (worktree w) ''Cargo.toml'') of
        None \<Rightarrow> w
      | Some cur \<Rightarrow> if cur = [] then w else snd (bump_version e bt cur w))"

text \<open>
  The errors of a run that ends at or before the end of the safety checks: the version could
  not be read, the shell has ended the script at the bump, or one of the checks of lines
  405-444 has stopped the run.
\<close>

fun preflight_error :: "error \<Rightarrow> bool" where
  "preflight_error NoVersionLine = True"
| "preflight_error EmptyVersion = True"
| "preflight_error ShellExit = True"
| "preflight_error DirtyWorkingTree = True"
| "preflight_error StagedChanges = True"
| "preflight_error LocalTagExists = True"
| "preflight_error RemoteTagExists = True"
| "preflight_error (PromptClosed p) = (p = BranchPrompt)"
| "preflight_error BranchDeclined = True"
| "preflight_error FetchFailed = True"
| "preflight_error RemoteDiverged = True"
| "preflight_error err = False"

text \<open>
  What the two fetches may change between a repository \<open>w\<close> and a later one \<open>w'\<close>: tags are
  added after the local ones, the remote-tracking branches move, and the trace grows by fetch
  events. Everything else, the remote included, is as before.
\<close>

definition fetched :: "world \<Rightarrow> world \<Rightarrow> bool" where
  "fetched w w' \<longleftrightarrow>
     worktree w' = worktree w \<and> index w' = index w \<and> head_tree w' = head_tree w \<and>
     ignored w' = ignored w \<and> head w' = head w \<and> branch w' = branch w \<and>
     origin_heads w' = origin_heads w \<and> origin_tags w' = origin_tags w \<and>
     prefix (tags w) (tags w') \<and>
     (\<exists>evs. trace w' = trace w @ evs \<and> set evs \<subseteq> {FetchTags, Fetch})"

text \<open>
  The events that the steps after the safety checks add to the trace of a run that succeeds.
\<close>

definition later_events :: "string \<Rightarrow> string \<Rightarrow> event list" where
  "later_events tag msg =
     [WriteVersion, CargoCheck, GitAdd, GitCommit msg, GitTag tag, GitPush, GitPushTag tag]"

subsection \<open>Example repositories\<close>

text \<open>
  A manifest with the version \<open>v\<close>, and a lock file that records the version lines of the
  manifest, which is what the \<open>cargo check\<close> of the examples writes.
\<close>

definition cargo_manifest :: "string \<Rightarrow> string list" where
  "cargo_manifest v = [''[package]'', ''edition = 2021'', version_field v]"

definition lock_of :: "tree \<Rightarrow> string list option" where
  "lock_of t = map_option (filter (prefix ''version'')) (map_of t ''Cargo.toml'')"

text \<open>
  A clean repository on \<open>main\<close> at commit 10, released as \<open>v0.1.1\<close> and in step with its
  remote.
\<close>

definition repo0 :: world where
  "repo0 =
     \<lparr>worktree = [(''Cargo.toml'', cargo_manifest ''0.1.1''), (''Cargo.lock'', [version_field ''0.1.1'']),
                  (''src/main.rs'', [''fn main() {}''])],
      index = [(''Cargo.toml'', cargo_manifest ''0.1.1''), (''Cargo.lock'', [version_field ''0.1.1'']),
               (''src/main.rs'', [''fn main() {}''])],
      head_tree = [(''Cargo.toml'', cargo_manifest ''0.1.1''), (''Cargo.lock'', [version_field ''0.1.1'']),
                   (''src/main.rs'', [''fn main() {}''])],
      ignored = [''target''],
      head = 10, branch = ''main'',
      tags = [(''v0.1.1'', 10)], tracking = [(''main'', 10)],
      origin_heads = [(''main'', 10)], origin_tags = [(''v0.1.1'', 10)],
      trace = []\<rparr>"

text \<open>
  A run in which no process is killed, every command succeeds, and the operator accepts the
  default message and confirms the push. The shell of this run answers every expression with
  an error message.
\<close>

definition env0 :: env where
  "env0 =
     \<lparr>grep_killed = False, shell_arith = (\<lambda>t v w. (Message, v, w)),
      odd_local_tag = False, odd_remote_tag = False,
      fetch_tags_ok = True, ls_remote_ok = True, fetch_ok = True,
      merge_base = (\<lambda>a b. Some a), sed_special = (\<lambda>cur new ls. None),
      cargo_check = lock_of, git_log_ok = True,
      reply_branch = None, reply_message = Some [], reply_push = Some [],
      commit_ok = True, new_commit = 11, tag_ok = True, push_ok = True, push_tag_ok = True\<rparr>"

text \<open>The same repository with an uncommitted edit of a source file.\<close>

definition repo_dirty_source :: world where
  "repo_dirty_source =
     repo0\<lparr>worktree := [(''Cargo.toml'', cargo_manifest ''0.1.1''),
                         (''Cargo.lock'', [version_field ''0.1.1'']),
                         (''src/main.rs'', [''fn main() { run() }''])]\<rparr>"

text \<open>The same repository when \<open>v0.1.2\<close> has been released from elsewhere in the meantime.\<close>

definition repo_remote_tag :: world where
  "repo_remote_tag = repo0\<lparr>origin_tags := [(''v0.1.1'', 10), (''v0.1.2'', 12)]\<rparr>"

text \<open>
  The same repository with an uncommitted edit of the manifest (a section added at the end),
  and an operator who declines the push.
\<close>

definition repo_dirty_manifest :: world where
  "repo_dirty_manifest =
     repo0\<lparr>worktree := [(''Cargo.toml'', cargo_manifest ''0.1.1'' @ [''[features]'']),
                         (''Cargo.lock'', [version_field ''0.1.1'']),
                         (''src/main.rs'', [''fn main() {}''])]\<rparr>"

definition env_decline :: env where
  "env_decline = env0\<lparr>reply_push := Some ''n''\<rparr>"

text \<open>Clean repositories whose manifest has no version line, or a version of two numbers.\<close>

definition clean_repo :: "tree \<Rightarrow> world" where
  "clean_repo t = repo0\<lparr>worktree := t, index := t, head_tree := t\<rparr>"

definition repo_no_version :: world where
  "repo_no_version =
     clean_repo [(''Cargo.toml'', [''[package]'', ''edition = 2021'']),
                 (''Cargo.lock'', [])]"

definition repo_short_version :: world where
  "repo_short_version =
     clean_repo [(''Cargo.toml'', cargo_manifest ''1.2''),
                 (''Cargo.lock'', [version_field ''1.2''])]"

text \<open>
  A clean repository whose package inherits the version of its workspace, with a lock file
  that \<open>cargo check\<close> will refresh; git rejects the tag name of this run.
\<close>

definition repo_workspace :: world where
  "repo_workspace =
     clean_repo [(''Cargo.toml'', [''[package]'', ''version.workspace = true'',
                                   ''[workspace.package]'', version_field ''0.1.1'']),
                 (''Cargo.lock'', [version_field ''0.1.0''])]"

definition env_tag_rejected :: env where
  "env_tag_rejected = env0\<lparr>tag_ok := False\<rparr>"

text \<open>An operator who types a commit message.\<close>

definition env_message :: env where
  "env_message = env0\<lparr>reply_message := Some ''fix login ''\<rparr>"

text \<open>A manifest with a dependency table whose version is that of the package.\<close>

definition manifest_with_dependency :: "string list" where
  "manifest_with_dependency =
     cargo_manifest ''0.1.1'' @ [''[dependencies.shelldeck-core]'', version_field ''0.1.1'']"

text \<open>
  A clean repository, tagged \<open>v1.2.6\<close>, whose patch number is the text
  \<open>BASH_VERSINFO[$(touch y)]\<close>: an expression whose subscript holds a command substitution.
  The shell of \<open>env_bash5\<close> evaluates it as bash 5 does: it runs \<open>touch y\<close>, which creates the
  empty file \<open>y\<close> in the working tree, and the value is 5.
\<close>

definition versinfo :: string where
  "versinfo = ''BASH_VERSINFO[$(touch y)]''"

definition subscript_version :: string where
  "subscript_version = ''1.2.'' @ versinfo"

definition repo_subscript :: world where
  "repo_subscript =
     (clean_repo [(''Cargo.toml'', cargo_manifest subscript_version),
                  (''Cargo.lock'', [version_field subscript_version])])
       \<lparr>tags := [(''v0.1.1'', 10), (''v1.2.6'', 10)]\<rparr>"

definition env_bash5 :: env where
  "env_bash5 =
     env0\<lparr>shell_arith := (\<lambda>t v w.
        if t = versinfo then (Value 5, v, w\<lparr>worktree := worktree w @ [(''y'', [])]\<rparr>)
        else (Message, v, w))\<rparr>"

text \<open>
  Two systems. On the first the pipe is never cut. The second has pipes with a buffer of
  65536 bytes: \<open>grep -q\<close> reads at most one buffer at a time and exits as soon as it has read
  the first line with the pattern, and \<open>echo\<close> is killed when the text after that line is
  more than two buffers long, which is more than \<open>grep\<close> can have read on top and the pipe
  can still take. A line takes its characters and a newline.
\<close>

definition quiet_pipe :: "string list \<Rightarrow> string \<Rightarrow> bool" where
  "quiet_pipe ls pattern = False"

definition text_bytes :: "string list \<Rightarrow> nat" where
  "text_bytes ls = sum_list (map (\<lambda>l. length l + 1) ls)"

definition read_by_grep :: "string list \<Rightarrow> string \<Rightarrow> string list" where
  "read_by_grep ls pattern = take (Suc (length (takeWhile (\<lambda>l. \<not> sublist pattern l) ls))) ls"

definition full_pipe :: "string list \<Rightarrow> string \<Rightarrow> bool" where
  "full_pipe ls pattern = (text_bytes (read_by_grep ls pattern) + 2 * 65536 < text_bytes ls)"

text \<open>
  A release with the five expected assets and 8000 further ones,
  \<open>shelldeck-debug-0.tar.gz\<close> to \<open>shelldeck-debug-7999.tar.gz\<close>.
\<close>

definition debug_asset :: "nat \<Rightarrow> string" where
  "debug_asset i = ''shelldeck-debug-'' @ digits_of i @ ''.tar.gz''"

definition many_assets :: "string list" where
  "many_assets = EXPECTED_ARTIFACTS @ map debug_asset [0..<8000]"

section \<open>Properties\<close>

subsection \<open>Run discovery\<close>

lemma find_run_unfold:
  "find_run p d =
     (if no_run (p (attempts d)) then
        (if attempts d + 1 \<ge> max_attempts then (Inl RunNotFound, d\<lparr>attempts := attempts d + 1\<rparr>)
         else find_run p (d\<lparr>attempts := attempts d + 1, slept := slept d + 10\<rparr>))
      else (Inr (p (attempts d)), d))"
  by (subst find_run.simps) (simp add: Let_def)

lemma find_run_general:
  "attempts d < max_attempts \<Longrightarrow>
   (\<exists>k. attempts d \<le> k \<and> k < max_attempts \<and> (\<forall>j. attempts d \<le> j \<and> j < k \<longrightarrow> no_run (p j)) \<and> \<not> no_run (p k) \<and>
        find_run p d = (Inr (p k), d\<lparr>attempts := k, slept := slept d + 10 * (k - attempts d)\<rparr>))
   \<or> ((\<forall>j. attempts d \<le> j \<and> j < max_attempts \<longrightarrow> no_run (p j)) \<and>
        find_run p d = (Inl RunNotFound, d\<lparr>attempts := max_attempts, slept := slept d + 10 * (max_attempts - 1 - attempts d)\<rparr>))"
proof (induction "max_attempts - attempts d" arbitrary: d)
  case 0
  then show ?case by simp
next
  case (Suc n)
  show ?case
  proof (cases "no_run (p (attempts d))")
    case False
    then have "find_run p d = (Inr (p (attempts d)), d)"
      by (subst find_run_unfold) simp
    with False Suc.prems show ?thesis
      by (intro disjI1 exI [of _ "attempts d"]) auto
  next
    case True
    show ?thesis
    proof (cases "attempts d + 1 \<ge> max_attempts")
      case last: True
      with Suc.prems have eq: "attempts d + 1 = max_attempts" by simp
      have "find_run p d = (Inl RunNotFound, d\<lparr>attempts := attempts d + 1\<rparr>)"
        using True last by (subst find_run_unfold) simp
      moreover have "\<forall>j. attempts d \<le> j \<and> j < max_attempts \<longrightarrow> no_run (p j)"
      proof (intro allI impI)
        fix j assume "attempts d \<le> j \<and> j < max_attempts"
        with eq have "j = attempts d" by simp
        with True show "no_run (p j)" by simp
      qed
      ultimately show ?thesis using eq by simp
    next
      case more: False
      define d' where "d' = d\<lparr>attempts := attempts d + 1, slept := slept d + 10\<rparr>"
      have step: "find_run p d = find_run p d'"
        using True more by (subst find_run_unfold) (simp add: d'_def)
      have a': "attempts d' = attempts d + 1" and s': "slept d' = slept d + 10"
        by (simp_all add: d'_def)
      have "n = max_attempts - attempts d'" using Suc.hyps(2) a' by simp
      moreover have "attempts d' < max_attempts" using more a' by simp
      ultimately have IH:
        "(\<exists>k. attempts d' \<le> k \<and> k < max_attempts \<and> (\<forall>j. attempts d' \<le> j \<and> j < k \<longrightarrow> no_run (p j)) \<and> \<not> no_run (p k) \<and>
            find_run p d' = (Inr (p k), d'\<lparr>attempts := k, slept := slept d' + 10 * (k - attempts d')\<rparr>))
         \<or> ((\<forall>j. attempts d' \<le> j \<and> j < max_attempts \<longrightarrow> no_run (p j)) \<and>
            find_run p d' = (Inl RunNotFound, d'\<lparr>attempts := max_attempts, slept := slept d' + 10 * (max_attempts - 1 - attempts d')\<rparr>))"
        by (rule Suc.hyps(1))
      have ext: "\<And>j. attempts d \<le> j \<Longrightarrow> \<not> attempts d' \<le> j \<Longrightarrow> no_run (p j)"
      proof -
        fix j assume "attempts d \<le> j" "\<not> attempts d' \<le> j"
        with a' have "j = attempts d" by simp
        with True show "no_run (p j)" by simp
      qed
      from IH show ?thesis
      proof
        assume "\<exists>k. attempts d' \<le> k \<and> k < max_attempts \<and> (\<forall>j. attempts d' \<le> j \<and> j < k \<longrightarrow> no_run (p j)) \<and> \<not> no_run (p k) \<and>
            find_run p d' = (Inr (p k), d'\<lparr>attempts := k, slept := slept d' + 10 * (k - attempts d')\<rparr>)"
        then obtain k where k: "attempts d' \<le> k" "k < max_attempts"
          "\<forall>j. attempts d' \<le> j \<and> j < k \<longrightarrow> no_run (p j)" "\<not> no_run (p k)"
          "find_run p d' = (Inr (p k), d'\<lparr>attempts := k, slept := slept d' + 10 * (k - attempts d')\<rparr>)"
          by blast
        have "slept d + 10 + 10 * (k - (attempts d + 1)) = slept d + 10 * (k - attempts d)"
          using k(1) a' by simp
        then have "find_run p d = (Inr (p k), d\<lparr>attempts := k, slept := slept d + 10 * (k - attempts d)\<rparr>)"
          using step k(5) a' s' by (simp add: d'_def)
        moreover have "\<forall>j. attempts d \<le> j \<and> j < k \<longrightarrow> no_run (p j)"
          using k(3) ext by blast
        moreover have "attempts d \<le> k" using k(1) a' by simp
        ultimately show ?thesis using k(2) k(4) by blast
      next
        assume t: "(\<forall>j. attempts d' \<le> j \<and> j < max_attempts \<longrightarrow> no_run (p j)) \<and>
            find_run p d' = (Inl RunNotFound, d'\<lparr>attempts := max_attempts, slept := slept d' + 10 * (max_attempts - 1 - attempts d')\<rparr>)"
        have "slept d + 10 + 10 * (max_attempts - 1 - (attempts d + 1)) = slept d + 10 * (max_attempts - 1 - attempts d)"
          using more by simp
        then have "find_run p d = (Inl RunNotFound, d\<lparr>attempts := max_attempts, slept := slept d + 10 * (max_attempts - 1 - attempts d)\<rparr>)"
          using step t a' s' by (simp add: d'_def)
        moreover have "\<forall>j. attempts d \<le> j \<and> j < max_attempts \<longrightarrow> no_run (p j)"
          using t ext by blast
        ultimately show ?thesis by blast
      qed
    qed
  qed
qed

text \<open>
  C7: the discovery loop sleeps 10 time units after each unsuccessful attempt but the last and
  makes at most 30 attempts. Whatever the polls answer, it either returns the run id of the
  first successful poll \<open>k < 30\<close>, after \<open>k\<close> unsuccessful attempts and \<open>10 * k\<close> units of
  sleep, or all 30 polls are unsuccessful and it ends with \<open>RunNotFound\<close> (the script's
  \<open>die "Timed out waiting for CI run ..."\<close>).
\<close>

theorem discovery_bounded:
  "(\<exists>k<30. (\<forall>j<k. no_run (gh_run_list j)) \<and> \<not> no_run (gh_run_list k) \<and>
       discover gh_run_list = (Inr (gh_run_list k), \<lparr>attempts = k, slept = 10 * k\<rparr>))
   \<or> ((\<forall>j<30. no_run (gh_run_list j)) \<and>
       discover gh_run_list = (Inl RunNotFound, \<lparr>attempts = 30, slept = 290\<rparr>))"
  using find_run_general [of "\<lparr>attempts = 0, slept = 0\<rparr>" gh_run_list]
  by (simp add: discover_def max_attempts_def)

theorem discovery_bounded_witness:
  "discover (\<lambda>n. if n < 2 then [] else ''4711'') = (Inr ''4711'', \<lparr>attempts = 2, slept = 20\<rparr>)
   \<and> discover (\<lambda>n. ''null'') = (Inl RunNotFound, \<lparr>attempts = 30, slept = 290\<rparr>)"
proof
  let ?p = "\<lambda>n::nat. if n < 2 then [] else ''4711''"
  from discovery_bounded [of ?p]
  show "discover ?p = (Inr ''4711'', \<lparr>attempts = 2, slept = 20\<rparr>)"
  proof (elim disjE exE conjE)
    fix k :: nat
    assume a: "\<forall>j<k. no_run (?p j)" and b: "\<not> no_run (?p k)"
      and r: "discover ?p = (Inr (?p k), \<lparr>attempts = k, slept = 10 * k\<rparr>)"
    from b have "\<not> k < 2" by (auto simp: no_run_def)
    moreover have "\<not> 2 < k"
    proof
      assume k2: "2 < k"
      from a k2 have "no_run (?p 2)" by blast
      then show False by (simp add: no_run_def)
    qed
    ultimately have "k = 2" by simp
    with r show ?thesis by simp
  next
    assume t: "\<forall>j<30. no_run (?p j)"
    have "(2::nat) < 30" by simp
    with t have "no_run (?p 2)" by blast
    then show ?thesis by (simp add: no_run_def)
  qed
next
  let ?q = "\<lambda>n::nat. ''null''"
  from discovery_bounded [of ?q]
  show "discover ?q = (Inl RunNotFound, \<lparr>attempts = 30, slept = 290\<rparr>)"
    by (auto simp: no_run_def)
qed

subsection \<open>Artifact verification\<close>

lemma grep_qF_iff:
  "grep_qF sigpipe e ls \<longleftrightarrow> (\<exists>l \<in> set ls. sublist e l) \<and> \<not> sigpipe ls e"
  by (simp add: grep_qF_def list_ex_iff)

lemma grep_qF_member: "e \<in> set ls \<Longrightarrow> \<not> sigpipe ls e \<Longrightarrow> grep_qF sigpipe e ls"
  by (auto simp: grep_qF_iff)

lemma check_expected_found:
  "found (check_expected sigpipe assets expected v) =
     found v + length (filter (\<lambda>e. grep_qF sigpipe e (echo_lines assets)) expected)"
  by (induction expected arbitrary: v) simp_all

lemma check_expected_missing_names:
  "missing_names (check_expected sigpipe assets expected v) =
     missing_names v @ filter (\<lambda>e. \<not> grep_qF sigpipe e (echo_lines assets)) expected"
  by (induction expected arbitrary: v) simp_all

lemma check_expected_missing:
  "missing (check_expected sigpipe assets expected v) =
     missing v + length (filter (\<lambda>e. \<not> grep_qF sigpipe e (echo_lines assets)) expected)"
  by (induction expected arbitrary: v) simp_all

lemma check_expected_all_ok:
  "all_ok (check_expected sigpipe assets expected v) =
     (all_ok v \<and> filter (\<lambda>e. \<not> grep_qF sigpipe e (echo_lines assets)) expected = [])"
  by (induction expected arbitrary: v) auto

lemma probe_fields:
  "found (probe curl url v) = found v"
  "missing (probe curl url v) = missing v"
  "missing_names (probe curl url v) = missing_names v"
  "extra (probe curl url v) = extra v"
  "all_ok (probe curl url v) = (all_ok v \<and> curl url = ''200'')"
  by (simp_all add: probe_def)

lemma verify_found:
  "found (verify sigpipe expected assets curl repo tag) =
     length (filter (\<lambda>e. grep_qF sigpipe e (echo_lines assets)) expected)"
  by (simp add: verify_def Let_def probe_fields check_expected_found)

lemma verify_missing_names:
  "missing_names (verify sigpipe expected assets curl repo tag) =
     filter (\<lambda>e. \<not> grep_qF sigpipe e (echo_lines assets)) expected"
  by (simp add: verify_def Let_def probe_fields check_expected_missing_names)

lemma verify_missing:
  "missing (verify sigpipe expected assets curl repo tag) =
     length (missing_names (verify sigpipe expected assets curl repo tag))"
  by (simp add: verify_def Let_def probe_fields check_expected_missing check_expected_missing_names)

lemma verify_extra:
  "extra (verify sigpipe expected assets curl repo tag) = extra_artifacts expected assets"
  by (simp add: verify_def Let_def probe_fields)

text \<open>
  \<open>all_ok\<close> is true exactly when the script has reported no expected name as missing and both
  probes have answered 200.
\<close>

lemma verify_all_ok:
  "all_ok (verify sigpipe expected assets curl repo tag) =
     (missing_names (verify sigpipe expected assets curl repo tag) = [] \<and>
      curl (linux_url repo tag) = ''200'' \<and> curl (macos_url repo tag) = ''200'')"
  by (simp add: verify_def Let_def probe_fields check_expected_all_ok check_expected_missing_names)

text \<open>
  Which names are found: those that are a substring of a line of the asset list, equal to an
  asset name or not, unless the pipe is cut.
\<close>

lemma verify_by_substring:
  "found (verify sigpipe expected assets curl repo tag) =
     length (filter (\<lambda>x. (\<exists>l \<in> set (echo_lines assets). sublist x l)
                          \<and> \<not> sigpipe (echo_lines assets) x) expected)
   \<and> missing_names (verify sigpipe expected assets curl repo tag) =
     filter (\<lambda>x. \<not> ((\<exists>l \<in> set (echo_lines assets). sublist x l)
                      \<and> \<not> sigpipe (echo_lines assets) x)) expected"
  by (simp add: verify_found verify_missing_names grep_qF_iff)

lemma substring_is_found:
  "found (verify quiet_pipe EXPECTED_ARTIFACTS [''SHA256SUMS.txt.asc''] curl repo tag) = 1
   \<and> missing_names (verify quiet_pipe EXPECTED_ARTIFACTS [''SHA256SUMS.txt.asc''] curl repo tag) =
       [''shelldeck-linux-x86_64.tar.gz'', ''shelldeck-macos-aarch64.zip'',
        ''shelldeck-windows-x86_64.zip'', ''ShellDeck-x86_64.AppImage'']"
proof -
  have e: "echo_lines [''SHA256SUMS.txt.asc''] = [''SHA256SUMS.txt.asc'']"
    by (simp add: echo_lines_def cmd_subst_def echo_def is_echo_option_def)
  show ?thesis
    by (simp add: verify_by_substring e EXPECTED_ARTIFACTS_def quiet_pipe_def sublist_Cons_right)
qed

text \<open>The example of the specification: expected A, B, C and actual A, C.\<close>

lemma verify_example:
  "found (verify quiet_pipe [''A'', ''B'', ''C''] [''A'', ''C''] curl repo tag) = 2
   \<and> missing_names (verify quiet_pipe [''A'', ''B'', ''C''] [''A'', ''C''] curl repo tag) = [''B'']
   \<and> \<not> all_ok (verify quiet_pipe [''A'', ''B'', ''C''] [''A'', ''C''] curl repo tag)"
proof -
  have e: "echo_lines [''A'', ''C''] = [''A'', ''C'']"
    by (simp add: echo_lines_def cmd_subst_def echo_def)
  have m: "missing_names (verify quiet_pipe [''A'', ''B'', ''C''] [''A'', ''C''] curl repo tag) = [''B'']"
    by (simp add: verify_by_substring e quiet_pipe_def sublist_Cons_right)
  show ?thesis
    by (simp add: verify_all_ok m) (simp add: verify_by_substring e quiet_pipe_def sublist_Cons_right)
qed

text \<open>The large release.\<close>

lemma cmd_subst_id: "ls \<noteq> [] \<Longrightarrow> last ls \<noteq> [] \<Longrightarrow> cmd_subst ls = ls"
  by (cases ls rule: rev_cases) (simp_all add: cmd_subst_def)

lemma echo_long: "2 \<le> length ls \<Longrightarrow> echo ls = ls"
  by (cases ls) (auto simp: echo_def split: list.splits)

lemma text_bytes_append: "text_bytes (xs @ ys) = text_bytes xs + text_bytes ys"
  by (simp add: text_bytes_def)

lemma text_bytes_map: "(\<And>x. k \<le> length (f x) + 1) \<Longrightarrow> k * length xs \<le> text_bytes (map f xs)"
proof (induction xs)
  case Nil
  then show ?case by (simp add: text_bytes_def)
next
  case (Cons x xs)
  from Cons.prems have "k \<le> length (f x) + 1" .
  moreover from Cons have "k * length xs \<le> text_bytes (map f xs)" by simp
  ultimately show ?case by (simp add: text_bytes_def)
qed

lemma digits_of_ne: "digits_of n \<noteq> []"
  by (subst digits_of.simps) simp

lemma debug_asset_length: "25 \<le> length (debug_asset i) + 1"
proof -
  have "1 \<le> length (digits_of i)"
    using digits_of_ne [of i] by (cases "digits_of i") simp_all
  then show ?thesis by (simp add: debug_asset_def)
qed

lemma text_bytes_take: "text_bytes (take k xs) \<le> text_bytes xs"
proof -
  have "text_bytes (take k xs) + text_bytes (drop k xs) = text_bytes xs"
    using text_bytes_append [of "take k xs" "drop k xs"] by simp
  then show ?thesis by simp
qed

lemma takeWhile_shorter: "x \<in> set xs \<Longrightarrow> \<not> P x \<Longrightarrow> length (takeWhile P xs) < length xs"
  by (induction xs) auto

lemma expected_bytes: "text_bytes EXPECTED_ARTIFACTS = 128"
  by (simp add: text_bytes_def EXPECTED_ARTIFACTS_def)

lemma many_assets_bytes: "200128 \<le> text_bytes many_assets"
proof -
  have "25 * length [0..<8000] \<le> text_bytes (map debug_asset [0..<8000])"
    by (rule text_bytes_map) (rule debug_asset_length)
  then have "200000 \<le> text_bytes (map debug_asset [0..<8000])" by simp
  then show ?thesis by (simp add: many_assets_def text_bytes_append expected_bytes)
qed

lemma echo_lines_many_assets: "echo_lines many_assets = many_assets"
proof -
  have l: "last many_assets = debug_asset 7999"
    by (simp add: many_assets_def last_map)
  have n: "debug_asset 7999 \<noteq> []" by (simp add: debug_asset_def)
  have "many_assets \<noteq> []" by (simp add: many_assets_def EXPECTED_ARTIFACTS_def)
  with l n have "cmd_subst many_assets = many_assets" by (simp add: cmd_subst_id)
  moreover have "2 \<le> length many_assets" by (simp add: many_assets_def)
  ultimately show ?thesis by (simp add: echo_lines_def echo_long)
qed

text \<open>
  An expected name is a line among the first five of the large release, so \<open>grep\<close> exits
  within the first 128 bytes and \<open>echo\<close> is killed.
\<close>

lemma many_assets_killed:
  assumes "x \<in> set EXPECTED_ARTIFACTS"
  shows "full_pipe many_assets x"
proof -
  let ?P = "\<lambda>l. \<not> sublist x l"
  have t: "takeWhile ?P many_assets = takeWhile ?P EXPECTED_ARTIFACTS"
    unfolding many_assets_def using assms by (intro takeWhile_append1 [where x = x]) simp_all
  have "length (takeWhile ?P EXPECTED_ARTIFACTS) < length EXPECTED_ARTIFACTS"
    using assms by (intro takeWhile_shorter [where x = x]) simp_all
  then have "read_by_grep many_assets x =
      take (Suc (length (takeWhile ?P EXPECTED_ARTIFACTS))) EXPECTED_ARTIFACTS"
    by (simp add: read_by_grep_def t) (simp add: many_assets_def)
  then have "text_bytes (read_by_grep many_assets x) \<le> 128"
    using text_bytes_take [of "Suc (length (takeWhile ?P EXPECTED_ARTIFACTS))" EXPECTED_ARTIFACTS]
    by (simp add: expected_bytes)
  with many_assets_bytes show ?thesis by (simp add: full_pipe_def)
qed

lemma many_assets_missing:
  "missing_names (verify full_pipe EXPECTED_ARTIFACTS many_assets curl repo tag) = EXPECTED_ARTIFACTS"
  "found (verify full_pipe EXPECTED_ARTIFACTS many_assets curl repo tag) = 0"
proof -
  have "\<not> grep_qF full_pipe x many_assets" if "x \<in> set EXPECTED_ARTIFACTS" for x
    using many_assets_killed [OF that] by (simp add: grep_qF_def)
  then show
    "missing_names (verify full_pipe EXPECTED_ARTIFACTS many_assets curl repo tag) = EXPECTED_ARTIFACTS"
    "found (verify full_pipe EXPECTED_ARTIFACTS many_assets curl repo tag) = 0"
    by (simp_all add: verify_found verify_missing_names echo_lines_many_assets filter_id_conv
        filter_empty_conv)
qed

lemma expected_assets_found:
  "missing_names (verify full_pipe EXPECTED_ARTIFACTS EXPECTED_ARTIFACTS curl repo tag) = []"
proof -
  have e: "echo_lines EXPECTED_ARTIFACTS = EXPECTED_ARTIFACTS"
    by (simp add: echo_lines_def EXPECTED_ARTIFACTS_def cmd_subst_def echo_def)
  have "\<not> full_pipe EXPECTED_ARTIFACTS x" for x
    by (simp add: full_pipe_def expected_bytes)
  then have "grep_qF full_pipe x EXPECTED_ARTIFACTS" if "x \<in> set EXPECTED_ARTIFACTS" for x
    using that by (intro grep_qF_member) simp_all
  then show ?thesis
    by (simp add: verify_missing_names e filter_empty_conv)
qed

text \<open>
  C4: with only the five expected assets attached and both probes answering 200, the release
  is verified. With the 8000 further assets attached as well, the asset list no longer fits
  into the pipe, every \<open>echo "$assets" | grep -qF\<close> fails under \<open>pipefail\<close> although the name
  is there, all five expected names are reported missing, and \<open>all_ok\<close> is false: the extra
  artifacts have made the verification fail. (And an extra asset named \<open>-n\<close> is not
  reported: \<open>echo "$asset"\<close> takes it as an option.)
\<close>

theorem extra_assets_fail_verification:
  "all_ok (verify full_pipe EXPECTED_ARTIFACTS EXPECTED_ARTIFACTS (\<lambda>url. ''200'')
      ''benfavre/shelldeck'' ''v0.1.2'')
   \<and> set EXPECTED_ARTIFACTS \<subseteq> set many_assets
   \<and> missing_names (verify full_pipe EXPECTED_ARTIFACTS many_assets (\<lambda>url. ''200'')
        ''benfavre/shelldeck'' ''v0.1.2'') = EXPECTED_ARTIFACTS
   \<and> missing (verify full_pipe EXPECTED_ARTIFACTS many_assets (\<lambda>url. ''200'')
        ''benfavre/shelldeck'' ''v0.1.2'') = 5
   \<and> \<not> all_ok (verify full_pipe EXPECTED_ARTIFACTS many_assets (\<lambda>url. ''200'')
        ''benfavre/shelldeck'' ''v0.1.2'')
   \<and> extra (verify quiet_pipe EXPECTED_ARTIFACTS (EXPECTED_ARTIFACTS @ [''-n'']) (\<lambda>url. ''200'')
        ''benfavre/shelldeck'' ''v0.1.2'') = []"
proof (intro conjI)
  show "all_ok (verify full_pipe EXPECTED_ARTIFACTS EXPECTED_ARTIFACTS (\<lambda>url. ''200'')
      ''benfavre/shelldeck'' ''v0.1.2'')"
    by (simp add: verify_all_ok expected_assets_found)
  show "set EXPECTED_ARTIFACTS \<subseteq> set many_assets"
    by (simp add: many_assets_def)
  show "missing_names (verify full_pipe EXPECTED_ARTIFACTS many_assets (\<lambda>url. ''200'')
        ''benfavre/shelldeck'' ''v0.1.2'') = EXPECTED_ARTIFACTS"
    by (rule many_assets_missing)
  show "missing (verify full_pipe EXPECTED_ARTIFACTS many_assets (\<lambda>url. ''200'')
        ''benfavre/shelldeck'' ''v0.1.2'') = 5"
    by (simp add: verify_missing many_assets_missing) (simp add: EXPECTED_ARTIFACTS_def)
  show "\<not> all_ok (verify full_pipe EXPECTED_ARTIFACTS many_assets (\<lambda>url. ''200'')
        ''benfavre/shelldeck'' ''v0.1.2'')"
    by (simp add: verify_all_ok many_assets_missing) (simp add: EXPECTED_ARTIFACTS_def)
  show "extra (verify quiet_pipe EXPECTED_ARTIFACTS (EXPECTED_ARTIFACTS @ [''-n'']) (\<lambda>url. ''200'')
        ''benfavre/shelldeck'' ''v0.1.2'') = []"
    by (simp add: verify_extra extra_artifacts_def echo_lines_def EXPECTED_ARTIFACTS_def
        cmd_subst_def echo_def is_echo_option_def read_r_def is_blank_def)
qed

text \<open>
  C10: in the large release the asset \<open>SHA256SUMS.txt\<close> is attached, so the expected name is
  a substring of the asset list (it is one of its lines), and yet it is not counted as found
  but reported missing, like the other four: under \<open>pipefail\<close> the test of line 250 fails when
  \<open>echo\<close> is killed, whatever \<open>grep\<close> has found.
\<close>

theorem present_name_reported_missing:
  "''SHA256SUMS.txt'' \<in> set (echo_lines many_assets)
   \<and> sublist ''SHA256SUMS.txt'' ''SHA256SUMS.txt''
   \<and> found (verify full_pipe EXPECTED_ARTIFACTS many_assets (\<lambda>url. ''200'')
        ''benfavre/shelldeck'' ''v0.1.2'') = 0
   \<and> ''SHA256SUMS.txt'' \<in> set (missing_names (verify full_pipe EXPECTED_ARTIFACTS many_assets
        (\<lambda>url. ''200'') ''benfavre/shelldeck'' ''v0.1.2''))"
  by (simp add: many_assets_missing echo_lines_many_assets)
     (simp add: many_assets_def EXPECTED_ARTIFACTS_def)

subsection \<open>The bump\<close>

lemma digit_cases: "d < 10 \<Longrightarrow> d \<in> {0, 1, 2, 3, 4, 5, 6, 7, 8, 9::nat}"
  by auto

lemma digit_char_props:
  assumes "d < 10"
  shows "is_digit (digit_char d)" and "digit_val (digit_char d) = d" and "not_dot (digit_char d)"
    and "digit_char d = CHR ''0'' \<longleftrightarrow> d = 0"
  using digit_cases [OF assms]
  by (auto simp: digit_char_def is_digit_def digit_val_def not_dot_def)

lemma digits_of_all:
  "list_all is_digit (digits_of n) \<and> list_all not_dot (digits_of n)"
proof (induction n rule: digits_of.induct)
  case (1 n)
  show ?case
  proof (cases "n < 10")
    case True
    then show ?thesis
      by (subst (1 2) digits_of.simps) (simp add: digit_char_props)
  next
    case False
    with 1 show ?thesis
      by (subst (1 2) digits_of.simps) (simp add: digit_char_props)
  qed
qed

lemma hd_digits_of: "hd (digits_of n) = CHR ''0'' \<longleftrightarrow> n = 0"
proof (induction n rule: digits_of.induct)
  case (1 n)
  show ?case
  proof (cases "n < 10")
    case True
    then show ?thesis
      by (subst digits_of.simps) (simp add: digit_char_props)
  next
    case False
    then have "n div 10 \<noteq> 0" by simp
    with 1 False show ?thesis
      by (subst digits_of.simps) (simp add: digits_of_ne)
  qed
qed

lemma numeral_val_digits_of: "numeral_val 10 (digits_of n) = of_nat n"
proof (induction n rule: digits_of.induct)
  case (1 n)
  show ?case
  proof (cases "n < 10")
    case True
    then show ?thesis
      by (subst digits_of.simps) (simp add: numeral_val_def digit_char_props)
  next
    case False
    with 1 have IH: "numeral_val 10 (digits_of (n div 10)) = of_nat (n div 10)" by simp
    have "n div 10 * 10 + n mod 10 = n" by simp
    then have "(of_nat (n div 10 * 10 + n mod 10) :: 64 word) = of_nat n" by (rule arg_cong)
    then have "(of_nat (n div 10) * 10 + of_nat (n mod 10) :: 64 word) = of_nat n"
      by (simp only: of_nat_add of_nat_mult of_nat_numeral)
    then show ?thesis
      using False IH
      by (subst digits_of.simps) (simp add: numeral_val_def digit_char_props)
  qed
qed

lemma digits_of_0: "digits_of 0 = ''0''"
  by (subst digits_of.simps) (simp add: digit_char_def)

lemma arith_value_digits_of: "arith_value (digits_of n) = Number (of_nat n)"
proof (cases "n = 0")
  case True
  then show ?thesis
    by (simp add: digits_of_0 arith_value_def is_digit_def digit_val_def numeral_val_def)
next
  case False
  then show ?thesis
    by (simp add: arith_value_def digits_of_ne digits_of_all hd_digits_of numeral_val_digits_of)
qed

lemma sint_succ:
  assumes "n < 2 ^ 63 - 1"
  shows "sint (of_nat n + 1 :: 64 word) = int n + 1"
proof -
  have "(of_nat n + 1 :: 64 word) = word_of_int (int n + 1)" by simp
  moreover have "signed_take_bit 63 (int n + 1) = int n + 1"
    using assms by (intro signed_take_bit_int_eq_self) auto
  ultimately show ?thesis
    by (simp only: sint_sbintrunc') simp
qed

lemma show_succ_digits_of:
  assumes "n < 2 ^ 63 - 1"
  shows "show_int (sint (of_nat n + 1 :: 64 word)) = digits_of (n + 1)"
proof -
  have "nat (int n + 1) = n + 1" by simp
  then show ?thesis
    using sint_succ [OF assms]
    by (simp add: show_int_def del: of_nat_Suc of_nat_add)
qed

lemma takeWhile_field: "list_all not_dot f \<Longrightarrow> takeWhile not_dot (f @ CHR ''.'' # r) = f"
  by (induction f) (simp_all add: not_dot_def)

lemma dropWhile_field: "list_all not_dot f \<Longrightarrow> dropWhile not_dot (f @ CHR ''.'' # r) = CHR ''.'' # r"
  by (induction f) (simp_all add: not_dot_def)

lemma takeWhile_last_field: "list_all not_dot f \<Longrightarrow> takeWhile not_dot f = f"
  by (induction f) simp_all

lemma read_version_fields:
  assumes "list_all not_dot a" "list_all not_dot b" "list_all not_dot c"
  shows "read_version (a @ ''.'' @ b @ ''.'' @ c) = \<lparr>MAJOR = a, MINOR = b, PATCH = c\<rparr>"
proof -
  have "c \<noteq> [] \<Longrightarrow> last c \<noteq> CHR ''.''"
    using assms(3) by (induction c) (auto simp: not_dot_def)
  then show ?thesis
    using assms by (auto simp: read_version_def takeWhile_field dropWhile_field)
qed

lemma read_version_text:
  "read_version (version_text x y z) = \<lparr>MAJOR = digits_of x, MINOR = digits_of y, PATCH = digits_of z\<rparr>"
  unfolding version_text_def by (rule read_version_fields) (simp_all add: digits_of_all)

text \<open>
  C1 (as amended): for a version \<open>X.Y.Z\<close> written with decimal numerals without leading zeros,
  the bump gives \<open>X.Y.(Z+1)\<close> for patch, \<open>X.(Y+1).0\<close> for minor and \<open>(X+1).0.0\<close> for major,
  provided the component that is incremented is below \<open>2^63 - 1\<close>, the largest number of the
  shell's arithmetic.
\<close>

theorem bump_numeric:
  "(z < 2 ^ 63 - 1 \<longrightarrow> new_version Patch (version_text x y z) = Inr (version_text x y (z + 1)))
   \<and> (y < 2 ^ 63 - 1 \<longrightarrow> new_version Minor (version_text x y z) = Inr (version_text x (y + 1) 0))
   \<and> (x < 2 ^ 63 - 1 \<longrightarrow> new_version Major (version_text x y z) = Inr (version_text (x + 1) 0 0))"
proof (intro conjI impI)
  assume "z < 2 ^ 63 - 1"
  then have "show_int (sint (of_nat z + 1 :: 64 word)) = digits_of (z + 1)"
    by (rule show_succ_digits_of)
  then have "new_version Patch (version_text x y z) =
      Inr (digits_of x @ ''.'' @ digits_of y @ ''.'' @ digits_of (z + 1))"
    by (simp add: new_version_def Let_def component_def bump_def dotted_def read_version_text
        arith_value_digits_of del: of_nat_Suc of_nat_add)
  then show "new_version Patch (version_text x y z) = Inr (version_text x y (z + 1))"
    by (simp add: version_text_def)
next
  assume "y < 2 ^ 63 - 1"
  then have "show_int (sint (of_nat y + 1 :: 64 word)) = digits_of (y + 1)"
    by (rule show_succ_digits_of)
  then have "new_version Minor (version_text x y z) =
      Inr (digits_of x @ ''.'' @ digits_of (y + 1) @ ''.'' @ ''0'')"
    by (simp add: new_version_def Let_def component_def bump_def dotted_def read_version_text
        arith_value_digits_of del: of_nat_Suc of_nat_add)
  then show "new_version Minor (version_text x y z) = Inr (version_text x (y + 1) 0)"
    by (simp add: version_text_def digits_of_0)
next
  assume "x < 2 ^ 63 - 1"
  then have "show_int (sint (of_nat x + 1 :: 64 word)) = digits_of (x + 1)"
    by (rule show_succ_digits_of)
  then have "new_version Major (version_text x y z) =
      Inr (digits_of (x + 1) @ ''.'' @ ''0'' @ ''.'' @ ''0'')"
    by (simp add: new_version_def Let_def component_def bump_def dotted_def read_version_text
        arith_value_digits_of del: of_nat_Suc of_nat_add)
  then show "new_version Major (version_text x y z) = Inr (version_text (x + 1) 0 0)"
    by (simp add: version_text_def digits_of_0)
qed

theorem bump_numeric_witness:
  "new_version Patch ''2.3.4'' = Inr ''2.3.5'' \<and> new_version Minor ''2.3.4'' = Inr ''2.4.0''
   \<and> new_version Major ''2.3.4'' = Inr ''3.0.0''"
proof -
  have t: "version_text 2 3 4 = ''2.3.4''" "version_text 2 3 5 = ''2.3.5''"
    "version_text 2 4 0 = ''2.4.0''" "version_text 3 0 0 = ''3.0.0''"
    by (simp_all add: version_text_def digits_of.simps digit_char_def)
  have "(4::nat) < 2 ^ 63 - 1" "(3::nat) < 2 ^ 63 - 1" "(2::nat) < 2 ^ 63 - 1" by simp_all
  with bump_numeric [where x = 2 and y = 3 and z = 4] show ?thesis
    by (simp add: t)
qed

text \<open>
  C1 (as stated) fails at the top of the 64-bit range: the patch bump of
  \<open>0.0.9223372036854775807\<close> wraps around to a negative number.
\<close>

theorem bump_overflow:
  "new_version Patch (version_text 0 0 9223372036854775807) = Inr ''0.0.-9223372036854775808''
   \<and> new_version Patch (version_text 0 0 9223372036854775807)
       \<noteq> Inr (version_text 0 0 (9223372036854775807 + 1))"
  by (simp add: new_version_def Let_def component_def bump_def dotted_def read_version_def
      not_dot_def arith_value_def is_digit_def numeral_val_def digit_val_def show_int_def
      digits_of.simps digit_char_def version_text_def)


text \<open>
  A component that is empty or a string of digits is never an expression: the new version
  is then fixed by the text of the manifest.
\<close>

lemma new_version_digits:
  assumes "list_all is_digit (component bt (read_version cur))"
  shows "\<exists>new. new_version bt cur = Inr new"
  using assms by (auto simp: new_version_def Let_def arith_value_def split: literal.splits)

lemma new_version_Inl:
  "new_version bt cur = Inl t \<Longrightarrow> t = component bt (read_version cur) \<and> arith_value t = Expression"
  by (auto simp: new_version_def Let_def split: if_splits literal.splits)

text \<open>
  The error \<open>value too great for base\<close> does not end the script: the \<open>case\<close> command is given
  up and the version stays as it was read. An octal numeral is read in base 8.
\<close>

lemma octal_component:
  "new_version Minor ''1.08.3'' = Inr ''1.08.3'' \<and> new_version Patch ''1.2.017'' = Inr ''1.2.16''"
  by (simp add: new_version_def Let_def component_def bump_def dotted_def read_version_def
      not_dot_def arith_value_def is_digit_def numeral_val_def digit_val_def show_int_def
      digits_of.simps digit_char_def)

lemma expression_component: "new_version Patch ''1.2.3-1'' = Inl ''3-1''"
  by (simp add: new_version_def Let_def component_def read_version_def not_dot_def
      arith_value_def is_digit_def)

subsection \<open>The release command\<close>

lemma run_append:
  "run (fs @ gs) w =
     (case run fs w of (Some err, w') \<Rightarrow> (Some err, w') | (None, w') \<Rightarrow> run gs w')"
  by (induction fs arbitrary: w) (auto split: prod.splits option.splits)

lemma run_Cons_None:
  assumes "run (f # fs) w = (None, w')"
  obtains w1 where "f w = (None, w1)" "run fs w1 = (None, w')"
  using assms by (auto split: prod.splits option.splits)

lemma run_append_None:
  assumes "run (fs @ gs) w = (None, w')"
  obtains w1 where "run fs w = (None, w1)" "run gs w1 = (None, w')"
  using assms by (auto simp: run_append split: prod.splits option.splits)

lemma check_clean_frame: "check_clean w = (r, w') \<Longrightarrow> w' = w \<and> (\<forall>err. r = Some err \<longrightarrow> preflight_error err)"
  by (auto simp: check_clean_def split: if_splits)

lemma check_local_tag_frame: "check_local_tag e tag w = (r, w') \<Longrightarrow> w' = w \<and> (\<forall>err. r = Some err \<longrightarrow> preflight_error err)"
  by (auto simp: check_local_tag_def split: if_splits)

lemma check_remote_tag_frame: "check_remote_tag e tag w = (r, w') \<Longrightarrow> w' = w \<and> (\<forall>err. r = Some err \<longrightarrow> preflight_error err)"
  by (auto simp: check_remote_tag_def split: if_splits)

lemma check_branch_frame: "check_branch e w = (r, w') \<Longrightarrow> w' = w \<and> (\<forall>err. r = Some err \<longrightarrow> preflight_error err)"
  by (auto simp: check_branch_def split: if_splits option.splits)

lemma check_up_to_date_frame: "check_up_to_date e w = (r, w') \<Longrightarrow> w' = w \<and> (\<forall>err. r = Some err \<longrightarrow> preflight_error err)"
  by (auto simp: check_up_to_date_def split: if_splits option.splits)

lemma fetched_refl: "fetched w w"
  by (simp add: fetched_def)

lemma fetched_trans: "fetched w w1 \<Longrightarrow> fetched w1 w2 \<Longrightarrow> fetched w w2"
  unfolding fetched_def by (elim conjE exE) (auto intro: prefix_order.trans)

lemma git_fetch_tags_frame: "git_fetch_tags e w = (r, w') \<Longrightarrow> fetched w w' \<and> r = None"
  by (auto simp: git_fetch_tags_def fetched_def split: if_splits)

lemma git_fetch_frame: "git_fetch e w = (r, w') \<Longrightarrow> fetched w w' \<and> (\<forall>err. r = Some err \<longrightarrow> preflight_error err)"
  by (auto simp: git_fetch_def fetched_def split: if_splits)

lemma run_invariant:
  assumes step: "\<And>f w r w'. f \<in> set fs \<Longrightarrow> f w = (r, w') \<Longrightarrow> R w w' \<and> (\<forall>err. r = Some err \<longrightarrow> E err)"
    and refl: "\<And>w. R w w"
    and trans: "\<And>a b c. R a b \<Longrightarrow> R b c \<Longrightarrow> R a c"
    and run: "run fs w = (r, w')"
  shows "R w w' \<and> (\<forall>err. r = Some err \<longrightarrow> E err)"
  using step run
proof (induction fs arbitrary: w)
  case Nil
  then show ?case by (simp add: refl)
next
  case (Cons f fs)
  obtain r1 w1 where f: "f w = (r1, w1)" by (cases "f w")
  have s1: "R w w1 \<and> (\<forall>err. r1 = Some err \<longrightarrow> E err)"
    using Cons.prems(1) [of f w r1 w1] f by simp
  show ?case
  proof (cases r1)
    case (Some err)
    with f Cons.prems(2) have "r = Some err" "w' = w1" by simp_all
    with s1 Some show ?thesis by simp
  next
    case None
    with f Cons.prems(2) have "run fs w1 = (r, w')" by simp
    moreover have "\<And>g w r w'. g \<in> set fs \<Longrightarrow> g w = (r, w') \<Longrightarrow> R w w' \<and> (\<forall>err. r = Some err \<longrightarrow> E err)"
    proof -
      fix g w r w'
      assume "g \<in> set fs" "g w = (r, w')"
      then show "R w w' \<and> (\<forall>err. r = Some err \<longrightarrow> E err)"
        using Cons.prems(1) [of g w r w'] by simp
    qed
    ultimately have "R w1 w' \<and> (\<forall>err. r = Some err \<longrightarrow> E err)"
      using Cons.IH by blast
    with s1 show ?thesis by (blast intro: trans)
  qed
qed

lemma preflight_step:
  assumes "f \<in> set (preflight e tag)" and "f w = (r, w')"
  shows "fetched w w' \<and> (\<forall>err. r = Some err \<longrightarrow> preflight_error err)"
proof -
  from assms(1) consider "f = check_clean" | "f = check_local_tag e tag" | "f = git_fetch_tags e"
    | "f = check_remote_tag e tag" | "f = check_branch e" | "f = git_fetch e"
    | "f = check_up_to_date e"
    by (auto simp: preflight_def)
  then show ?thesis
  proof cases
    case 1 with assms(2) check_clean_frame [of w r w'] show ?thesis by (simp add: fetched_refl)
  next
    case 2 with assms(2) check_local_tag_frame [of e tag w r w'] show ?thesis by (simp add: fetched_refl)
  next
    case 3 with assms(2) git_fetch_tags_frame [of e w r w'] show ?thesis by simp
  next
    case 4 with assms(2) check_remote_tag_frame [of e tag w r w'] show ?thesis by (simp add: fetched_refl)
  next
    case 5 with assms(2) check_branch_frame [of e w r w'] show ?thesis by (simp add: fetched_refl)
  next
    case 6 with assms(2) git_fetch_frame [of e w r w'] show ?thesis by simp
  next
    case 7 with assms(2) check_up_to_date_frame [of e w r w'] show ?thesis by (simp add: fetched_refl)
  qed
qed

lemma preflight_frame:
  assumes "run (preflight e tag) w = (r, w')"
  shows "fetched w w' \<and> (\<forall>err. r = Some err \<longrightarrow> preflight_error err)"
  using preflight_step fetched_refl fetched_trans assms
  by (rule run_invariant [where R = fetched and E = preflight_error])

lemma write_version_trace:
  "write_version e cur new w = (r, w') \<Longrightarrow>
     (\<forall>err. r = Some err \<longrightarrow> \<not> preflight_error err \<and> w' = w) \<and>
     (r = None \<longrightarrow> trace w' = trace w @ [WriteVersion])"
  by (auto simp: write_version_def split: option.splits if_splits)

lemma run_cargo_check_trace:
  "run_cargo_check e w = (r, w') \<Longrightarrow>
     (\<forall>err. r = Some err \<longrightarrow> \<not> preflight_error err \<and> w' = w) \<and>
     (r = None \<longrightarrow> trace w' = trace w @ [CargoCheck])"
  by (auto simp: run_cargo_check_def split: option.splits)

lemma git_commit_trace:
  "git_commit e msg w = (r, w') \<Longrightarrow>
     (\<forall>err. r = Some err \<longrightarrow> \<not> preflight_error err \<and> w' = w) \<and>
     (r = None \<longrightarrow> trace w' = trace w @ [GitCommit msg])"
  by (auto simp: git_commit_def split: if_splits)

lemma git_tag_trace:
  "git_tag e tag w = (r, w') \<Longrightarrow>
     (\<forall>err. r = Some err \<longrightarrow> \<not> preflight_error err \<and> w' = w) \<and>
     (r = None \<longrightarrow> trace w' = trace w @ [GitTag tag])"
  by (auto simp: git_tag_def split: if_splits)

lemma git_push_trace:
  "git_push e w = (r, w') \<Longrightarrow>
     (\<forall>err. r = Some err \<longrightarrow> \<not> preflight_error err \<and> w' = w) \<and>
     (r = None \<longrightarrow> trace w' = trace w @ [GitPush])"
  by (auto simp: git_push_def split: if_splits)

lemma git_push_tag_trace:
  "git_push_tag e tag w = (r, w') \<Longrightarrow>
     (\<forall>err. r = Some err \<longrightarrow> \<not> preflight_error err \<and> w' = w) \<and>
     (r = None \<longrightarrow> trace w' = trace w @ [GitPushTag tag])"
  by (auto simp: git_push_tag_def split: if_splits option.splits)

lemma show_log_trace:
  "show_log e w = (r, w') \<Longrightarrow> w' = w \<and> (\<forall>err. r = Some err \<longrightarrow> \<not> preflight_error err)"
  by (auto simp: show_log_def split: if_splits)

lemma ask_message_trace:
  "ask_message e w = (r, w') \<Longrightarrow> w' = w \<and> (\<forall>err. r = Some err \<longrightarrow> \<not> preflight_error err)"
  by (auto simp: ask_message_def split: option.splits)

lemma checkout_manifest_trace:
  "trace (checkout_manifest w) = trace w \<or> trace (checkout_manifest w) = trace w @ [Checkout]"
  by (auto simp: checkout_manifest_def split: option.splits)

lemma final_confirm_trace:
  "final_confirm e w = (r, w') \<Longrightarrow>
     (\<forall>err. r = Some err \<longrightarrow> \<not> preflight_error err \<and>
        (trace w' = trace w \<or> trace w' = trace w @ [Checkout])) \<and>
     (r = None \<longrightarrow> w' = w)"
  using checkout_manifest_trace [of w]
  by (auto simp: final_confirm_def split: option.splits if_splits)

lemma trace_stage: "trace (stage p w) = trace w"
  by (simp add: stage_def split: option.splits)

lemma git_add_trace:
  "git_add w = (r, w') \<Longrightarrow>
     (\<forall>err. r = Some err \<longrightarrow> \<not> preflight_error err \<and> trace w' = trace w) \<and>
     (r = None \<longrightarrow> trace w' = trace w @ [GitAdd])"
  by (auto simp: git_add_def trace_stage split: if_splits)

lemma later_steps_trace:
  assumes "run ([write_version e cur new, run_cargo_check e, show_log e, ask_message e, final_confirm e]
                @ transaction e tag msg) w = (r, w')"
  shows "(r = None \<longrightarrow> trace w' = trace w @ later_events tag msg) \<and>
         (\<forall>err. r = Some err \<longrightarrow> \<not> preflight_error err \<and>
            (\<exists>evs. trace w' = trace w @ evs \<and>
                   (prefix evs (later_events tag msg) \<or> evs = [WriteVersion, CargoCheck, Checkout])))"
proof -
  obtain r1 w1 where 1: "write_version e cur new w = (r1, w1)" by (cases "write_version e cur new w")
  obtain r2 w2 where 2: "run_cargo_check e w1 = (r2, w2)" by (cases "run_cargo_check e w1")
  obtain r3 w3 where 3: "show_log e w2 = (r3, w3)" by (cases "show_log e w2")
  obtain r4 w4 where 4: "ask_message e w3 = (r4, w4)" by (cases "ask_message e w3")
  obtain r5 w5 where 5: "final_confirm e w4 = (r5, w5)" by (cases "final_confirm e w4")
  obtain r6 w6 where 6: "git_add w5 = (r6, w6)" by (cases "git_add w5")
  obtain r7 w7 where 7: "git_commit e msg w6 = (r7, w7)" by (cases "git_commit e msg w6")
  obtain r8 w8 where 8: "git_tag e tag w7 = (r8, w8)" by (cases "git_tag e tag w7")
  obtain r9 w9 where 9: "git_push e w8 = (r9, w9)" by (cases "git_push e w8")
  obtain r10 w10 where 10: "git_push_tag e tag w9 = (r10, w10)" by (cases "git_push_tag e tag w9")
  note t = write_version_trace [OF 1] run_cargo_check_trace [OF 2] show_log_trace [OF 3] ask_message_trace [OF 4] final_confirm_trace [OF 5] git_add_trace [OF 6] git_commit_trace [OF 7] git_tag_trace [OF 8] git_push_trace [OF 9] git_push_tag_trace [OF 10]
  show ?thesis
  proof (cases r1)
    case (Some err)
    with assms  1 t(1) show ?thesis
      by (auto simp: transaction_def later_events_def)
  next
    case n1: None
    show ?thesis
    proof (cases r2)
      case (Some err)
      with assms n1 1 2 t(1,2) show ?thesis
        by (auto simp: transaction_def later_events_def)
    next
      case n2: None
      show ?thesis
      proof (cases r3)
        case (Some err)
        with assms n1 n2 1 2 3 t(1,2,3) show ?thesis
          by (auto simp: transaction_def later_events_def)
      next
        case n3: None
        show ?thesis
        proof (cases r4)
          case (Some err)
          with assms n1 n2 n3 1 2 3 4 t(1,2,3,4) show ?thesis
            by (auto simp: transaction_def later_events_def)
        next
          case n4: None
          show ?thesis
          proof (cases r5)
            case (Some err)
            with assms n1 n2 n3 n4 1 2 3 4 5 t(1,2,3,4,5) show ?thesis
              by (auto simp: transaction_def later_events_def)
          next
            case n5: None
            show ?thesis
            proof (cases r6)
              case (Some err)
              with assms n1 n2 n3 n4 n5 1 2 3 4 5 6 t(1,2,3,4,5,6) show ?thesis
                by (auto simp: transaction_def later_events_def)
            next
              case n6: None
              show ?thesis
              proof (cases r7)
                case (Some err)
                with assms n1 n2 n3 n4 n5 n6 1 2 3 4 5 6 7 t(1,2,3,4,5,6,7) show ?thesis
                  by (auto simp: transaction_def later_events_def)
              next
                case n7: None
                show ?thesis
                proof (cases r8)
                  case (Some err)
                  with assms n1 n2 n3 n4 n5 n6 n7 1 2 3 4 5 6 7 8 t(1,2,3,4,5,6,7,8) show ?thesis
                    by (auto simp: transaction_def later_events_def)
                next
                  case n8: None
                  show ?thesis
                  proof (cases r9)
                    case (Some err)
                    with assms n1 n2 n3 n4 n5 n6 n7 n8 1 2 3 4 5 6 7 8 9 t(1,2,3,4,5,6,7,8,9) show ?thesis
                      by (auto simp: transaction_def later_events_def)
                  next
                    case n9: None
                    show ?thesis
                    proof (cases r10)
                      case (Some err)
                      with assms n1 n2 n3 n4 n5 n6 n7 n8 n9 1 2 3 4 5 6 7 8 9 10 t(1,2,3,4,5,6,7,8,9,10) show ?thesis
                        by (auto simp: transaction_def later_events_def)
                    next
                      case n10: None
                      with assms n1 n2 n3 n4 n5 n6 n7 n8 n9 1 2 3 4 5 6 7 8 9 10 t(1,2,3,4,5,6,7,8,9,10) show ?thesis
                        by (auto simp: transaction_def later_events_def)
                    qed
                  qed
                qed
              qed
            qed
          qed
        qed
      qed
    qed
  qed
qed

text \<open>
  The bump leaves the trace alone, and it leaves the repository alone when the component is
  empty or a string of digits: the shell then has no expression to evaluate.
\<close>

lemma bump_version_trace: "bump_version e bt cur w = (x, w1) \<Longrightarrow> trace w1 = trace w"
  by (auto simp: bump_version_def split: sum.splits prod.splits shell_outcome.splits)

lemma bump_version_digits:
  assumes "list_all is_digit (component bt (read_version cur))"
  shows "\<exists>new. bump_version e bt cur w = (Some new, w)"
  using new_version_digits [OF assms] by (auto simp: bump_version_def)

lemma bump_world_trace: "trace (bump_world e bt w) = trace w"
proof -
  have "trace (snd (bump_version e bt cur w)) = trace w" for cur
    using bump_version_trace [of e bt cur w] by (cases "bump_version e bt cur w") simp
  then show ?thesis
    by (simp add: bump_world_def split: option.splits)
qed

lemma bump_world_digits:
  assumes "\<forall>cur. read_current_version (grep_killed e) (map_of (worktree w) ''Cargo.toml'') = Some cur
             \<longrightarrow> list_all is_digit (component bt (read_version cur))"
  shows "bump_world e bt w = w"
proof (cases "read_current_version (grep_killed e) (map_of (worktree w) ''Cargo.toml'')")
  case None
  then show ?thesis by (simp add: bump_world_def)
next
  case (Some cur)
  with assms have "list_all is_digit (component bt (read_version cur))" by simp
  from bump_version_digits [OF this, of e w] Some show ?thesis
    by (auto simp: bump_world_def)
qed

lemma release_cases:
  assumes "release e bt w = (r, w')"
  obtains (unread) err where "r = Some err" "w' = w" "bump_world e bt w = w"
      "err = NoVersionLine \<or> err = EmptyVersion"
  | (exit) "r = Some ShellExit" "w' = bump_world e bt w"
  | (steps) cur new where
      "read_current_version (grep_killed e) (map_of (worktree w) ''Cargo.toml'') = Some cur"
      "cur \<noteq> []" "bump_version e bt cur w = (Some new, bump_world e bt w)"
      "run (release_steps e cur new) (bump_world e bt w) = (r, w')"
proof (cases "read_current_version (grep_killed e) (map_of (worktree w) ''Cargo.toml'')")
  case None
  with assms show thesis
    by (intro unread [of NoVersionLine]) (simp_all add: release_def bump_world_def)
next
  case (Some cur)
  show thesis
  proof (cases "cur = []")
    case True
    with Some assms show thesis
      by (intro unread [of EmptyVersion]) (simp_all add: release_def bump_world_def)
  next
    case False
    obtain x w1 where b: "bump_version e bt cur w = (x, w1)" by (cases "bump_version e bt cur w")
    with Some False have bw: "bump_world e bt w = w1" by (simp add: bump_world_def)
    show thesis
    proof (cases x)
      case None
      with Some False b bw assms show thesis
        by (intro exit) (simp_all add: release_def)
    next
      case (Some new)
      with \<open>read_current_version (grep_killed e) (map_of (worktree w) ''Cargo.toml'') = Some cur\<close>
        False b bw assms show thesis
        by (intro steps [of cur new]) (simp_all add: release_def)
    qed
  qed
qed

lemma release_steps_cases:
  assumes "run (release_steps e cur new) w = (r, w')"
  obtains (preflight) err where "r = Some err" "run (preflight e (''v'' @ new)) w = (Some err, w')"
  | (later) w1 where "run (preflight e (''v'' @ new)) w = (None, w1)"
      "run ([write_version e cur new, run_cargo_check e, show_log e, ask_message e, final_confirm e]
            @ transaction e (''v'' @ new) (commit_message (''v'' @ new) (user_msg e))) w1 = (r, w')"
proof -
  obtain r1 w1 where p: "run (preflight e (''v'' @ new)) w = (r1, w1)"
    by (cases "run (preflight e (''v'' @ new)) w")
  show thesis
  proof (cases r1)
    case (Some err)
    with assms p have "r = Some err" "w' = w1"
      by (simp_all add: release_steps_def run_append)
    with p Some show thesis by (intro preflight) simp_all
  next
    case None
    with assms p show thesis
      by (intro later [of w1]) (simp_all add: release_steps_def run_append)
  qed
qed

text \<open>
  C3 (as amended): a release run that ends with one of the errors of the safety checks, or
  earlier, leaves the working tree, the index, \<open>HEAD\<close> and the current branch exactly as they
  were when the new version had been computed (line 392); and the repository was then as
  before the command whenever the component that is bumped is empty or a string of digits,
  so that the shell has evaluated a numeral and no expression. After that the only commands
  that have changed anything are the two fetches: the local tags of before are still there,
  tags of the remote may have been added after them, and the remote-tracking branches may
  have moved.
\<close>

theorem preflight_failure_frame:
  assumes "release e bt w = (Some err, w')" and "preflight_error err"
  shows "worktree w' = worktree (bump_world e bt w) \<and> index w' = index (bump_world e bt w)
       \<and> head_tree w' = head_tree (bump_world e bt w) \<and> head w' = head (bump_world e bt w)
       \<and> branch w' = branch (bump_world e bt w) \<and> prefix (tags (bump_world e bt w)) (tags w')
       \<and> (\<exists>evs. trace w' = trace w @ evs \<and> set evs \<subseteq> {FetchTags, Fetch})
       \<and> ((\<forall>cur. read_current_version (grep_killed e) (map_of (worktree w) ''Cargo.toml'') = Some cur
               \<longrightarrow> list_all is_digit (component bt (read_version cur)))
            \<longrightarrow> bump_world e bt w = w)"
proof -
  have "fetched (bump_world e bt w) w'"
    using assms(1)
  proof (cases rule: release_cases)
    case (unread err')
    then show ?thesis by (simp add: fetched_refl)
  next
    case exit
    then show ?thesis by (simp add: fetched_refl)
  next
    case (steps cur new)
    from steps(4) show ?thesis
    proof (cases rule: release_steps_cases)
      case (preflight err')
      then show ?thesis using preflight_frame by blast
    next
      case (later w1)
      from later_steps_trace [OF later(2)] assms(2) show ?thesis by simp
    qed
  qed
  then show ?thesis
    using bump_world_digits [of e w bt] by (simp add: fetched_def bump_world_trace)
qed

text \<open>What the five commands of the transaction do when they succeed.\<close>

lemma map_of_stage:
  "map_of (index (stage p w)) q = (if q = p then map_of (worktree w) p else map_of (index w) q)"
  by (simp add: stage_def update_conv' delete_conv' split: option.splits)

lemma stage_frame:
  "worktree (stage p w) = worktree w" "head (stage p w) = head w" "tags (stage p w) = tags w"
  "branch (stage p w) = branch w" "origin_heads (stage p w) = origin_heads w"
  "origin_tags (stage p w) = origin_tags w" "head_tree (stage p w) = head_tree w"
  by (simp_all add: stage_def split: option.splits)

lemma git_add_effect:
  assumes "git_add w = (None, w1)"
  shows "map_of (index w1) ''Cargo.toml'' = map_of (worktree w) ''Cargo.toml''"
    and "map_of (index w1) ''Cargo.lock'' = map_of (worktree w) ''Cargo.lock''"
    and "head w1 = head w" and "tags w1 = tags w" and "branch w1 = branch w"
    and "origin_heads w1 = origin_heads w" and "origin_tags w1 = origin_tags w"
  using assms by (auto simp: git_add_def map_of_stage stage_frame split: if_splits)

lemma git_commit_effect:
  assumes "git_commit e msg w = (None, w1)"
  shows "commit_ok e" and "head w1 = new_commit e" and "head_tree w1 = index w"
    and "tags w1 = tags w" and "branch w1 = branch w"
    and "origin_heads w1 = origin_heads w" and "origin_tags w1 = origin_tags w"
  using assms by (auto simp: git_commit_def split: if_splits)

lemma git_tag_effect:
  assumes "git_tag e tag w = (None, w1)"
  shows "tag_ok e" and "map_of (tags w) tag = None" and "map_of (tags w1) tag = Some (head w)"
    and "head w1 = head w" and "branch w1 = branch w"
    and "origin_heads w1 = origin_heads w" and "origin_tags w1 = origin_tags w"
  using assms by (auto simp: git_tag_def map_add_def split: if_splits)

lemma git_push_effect:
  assumes "git_push e w = (None, w1)"
  shows "push_ok e" and "map_of (origin_heads w1) (branch w) = Some (head w)"
    and "tags w1 = tags w" and "origin_tags w1 = origin_tags w"
  using assms by (auto simp: git_push_def update_conv' split: if_splits)

lemma git_push_tag_effect:
  assumes "git_push_tag e tag w = (None, w1)"
  shows "push_tag_ok e" and "map_of (origin_tags w1) tag = map_of (tags w) tag"
    and "origin_heads w1 = origin_heads w"
  using assms by (auto simp: git_push_tag_def update_conv' split: if_splits option.splits)

text \<open>
  C5: in every release run that succeeds, the commands that change the repository after the
  fetches of the safety checks are, in this order: the version update and \<open>cargo check\<close>, then
  \<open>git add\<close> of the manifest and the lock file, the commit, the tag, the push of the branch, and
  the push of the tag as the last one. Each of the five has succeeded and has done its work on
  the repository that the one before has left: the two files are staged as they are in the
  working tree, the commit takes the staged tree and becomes \<open>HEAD\<close>, the tag is new and names
  that commit, and the remote is still as it was; then the branch is on the remote at that
  commit while the tags of the remote are still as they were; and at the end the tag is on
  the remote, at that commit.
\<close>

theorem transaction_order:
  assumes "release e bt w = (None, w')"
  shows "\<exists>cur new pre w0 w1 w2 w3 w4.
      read_current_version (grep_killed e) (map_of (worktree w) ''Cargo.toml'') = Some cur
    \<and> bump_version e bt cur w = (Some new, bump_world e bt w)
    \<and> trace w' = trace w @ pre
        @ [WriteVersion, CargoCheck, GitAdd, GitCommit (commit_message (''v'' @ new) (user_msg e)),
           GitTag (''v'' @ new), GitPush, GitPushTag (''v'' @ new)]
    \<and> set pre \<subseteq> {FetchTags, Fetch}
    \<and> run (preflight e (''v'' @ new)
            @ [write_version e cur new, run_cargo_check e, show_log e, ask_message e, final_confirm e])
        (bump_world e bt w) = (None, w0)
    \<and> git_add w0 = (None, w1)
    \<and> git_commit e (commit_message (''v'' @ new) (user_msg e)) w1 = (None, w2)
    \<and> git_tag e (''v'' @ new) w2 = (None, w3)
    \<and> git_push e w3 = (None, w4)
    \<and> git_push_tag e (''v'' @ new) w4 = (None, w')
    \<and> map_of (index w1) ''Cargo.toml'' = map_of (worktree w0) ''Cargo.toml''
    \<and> map_of (index w1) ''Cargo.lock'' = map_of (worktree w0) ''Cargo.lock''
    \<and> head w2 = new_commit e \<and> head_tree w2 = index w1
    \<and> map_of (tags w2) (''v'' @ new) = None
    \<and> map_of (tags w3) (''v'' @ new) = Some (new_commit e)
    \<and> origin_heads w3 = origin_heads w0 \<and> origin_tags w3 = origin_tags w0
    \<and> map_of (origin_heads w4) (branch w0) = Some (new_commit e)
    \<and> origin_tags w4 = origin_tags w0
    \<and> map_of (origin_tags w') (''v'' @ new) = Some (new_commit e)
    \<and> origin_heads w' = origin_heads w4
    \<and> commit_ok e \<and> tag_ok e \<and> push_ok e \<and> push_tag_ok e"
  using assms
proof (cases rule: release_cases)
  case (unread err)
  then show ?thesis by simp
next
  case exit
  then show ?thesis by simp
next
  case (steps cur new)
  let ?tag = "''v'' @ new"
  let ?msg = "commit_message ?tag (user_msg e)"
  let ?bw = "bump_world e bt w"
  have tr: "\<exists>pre. trace w' = trace w @ pre @ later_events ?tag ?msg \<and> set pre \<subseteq> {FetchTags, Fetch}"
    using steps(4)
  proof (cases rule: release_steps_cases)
    case (preflight err)
    then show ?thesis by simp
  next
    case (later v)
    from preflight_frame [OF later(1)] obtain pre where
      pre: "trace v = trace w @ pre" "set pre \<subseteq> {FetchTags, Fetch}"
      by (auto simp: fetched_def bump_world_trace)
    from later_steps_trace [OF later(2)]
    have "trace w' = trace v @ later_events ?tag ?msg" by simp
    with pre show ?thesis by auto
  qed
  then obtain pre where pre: "trace w' = trace w @ pre @ later_events ?tag ?msg"
    "set pre \<subseteq> {FetchTags, Fetch}" by blast
  have "run ((preflight e ?tag
          @ [write_version e cur new, run_cargo_check e, show_log e, ask_message e, final_confirm e])
          @ transaction e ?tag ?msg) ?bw = (None, w')"
    using steps(4) by (simp add: release_steps_def)
  then obtain w0 where w0: "run (preflight e ?tag
          @ [write_version e cur new, run_cargo_check e, show_log e, ask_message e, final_confirm e])
          ?bw = (None, w0)"
    and t: "run (transaction e ?tag ?msg) w0 = (None, w')"
    by (rule run_append_None)
  from t have "run [git_add, git_commit e ?msg, git_tag e ?tag, git_push e, git_push_tag e ?tag] w0
      = (None, w')"
    by (simp add: transaction_def)
  then obtain w1 where 1: "git_add w0 = (None, w1)"
    and r1: "run [git_commit e ?msg, git_tag e ?tag, git_push e, git_push_tag e ?tag] w1 = (None, w')"
    by (rule run_Cons_None)
  from r1 obtain w2 where 2: "git_commit e ?msg w1 = (None, w2)"
    and r2: "run [git_tag e ?tag, git_push e, git_push_tag e ?tag] w2 = (None, w')"
    by (rule run_Cons_None)
  from r2 obtain w3 where 3: "git_tag e ?tag w2 = (None, w3)"
    and r3: "run [git_push e, git_push_tag e ?tag] w3 = (None, w')"
    by (rule run_Cons_None)
  from r3 obtain w4 where 4: "git_push e w3 = (None, w4)"
    and r4: "run [git_push_tag e ?tag] w4 = (None, w')"
    by (rule run_Cons_None)
  from r4 have 5: "git_push_tag e ?tag w4 = (None, w')"
    by (auto split: prod.splits option.splits)
  note a = git_add_effect [OF 1] and c = git_commit_effect [OF 2] and g = git_tag_effect [OF 3]
    and p = git_push_effect [OF 4] and q = git_push_tag_effect [OF 5]
  have s1: "map_of (index w1) ''Cargo.toml'' = map_of (worktree w0) ''Cargo.toml''"
    "map_of (index w1) ''Cargo.lock'' = map_of (worktree w0) ''Cargo.lock''"
    by (rule a)+
  have s2: "head w2 = new_commit e" "head_tree w2 = index w1" by (rule c)+
  have s3: "map_of (tags w2) ?tag = None" "map_of (tags w3) ?tag = Some (new_commit e)"
    using g(2,3) c(2) by simp_all
  have s4: "origin_heads w3 = origin_heads w0" "origin_tags w3 = origin_tags w0"
    using a(6,7) c(6,7) g(6,7) by simp_all
  have s5: "map_of (origin_heads w4) (branch w0) = Some (new_commit e)" "origin_tags w4 = origin_tags w0"
    using p(2,4) g(4,5) c(2,5) a(5) s4 by simp_all
  have s6: "map_of (origin_tags w') ?tag = Some (new_commit e)" "origin_heads w' = origin_heads w4"
    using q(2,3) p(3) s3 by simp_all
  have s7: "commit_ok e" "tag_ok e" "push_ok e" "push_tag_ok e"
    by (rule c g p q)+
  from pre(1) have tr': "trace w' = trace w @ pre
        @ [WriteVersion, CargoCheck, GitAdd, GitCommit ?msg, GitTag ?tag, GitPush, GitPushTag ?tag]"
    by (simp add: later_events_def)
  show ?thesis
    apply (rule exI [of _ cur], rule exI [of _ new], rule exI [of _ pre], rule exI [of _ w0])
    apply (rule exI [of _ w1], rule exI [of _ w2], rule exI [of _ w3], rule exI [of _ w4])
    apply (intro conjI)
    apply (fact steps(1) steps(3) tr' pre(2) w0 1 2 3 4 5 s1 s2 s3 s4 s5 s6 s7)+
    done
qed




lemma current_version_None_iff:
  "current_version (Some ls) = None \<longleftrightarrow> (\<forall>l \<in> set ls. \<not> prefix ''version'' l)"
proof -
  have "current_version (Some ls) = None \<longleftrightarrow> grep_version ls = []"
    by (cases "grep_version ls") (simp_all add: current_version_def)
  also have "\<dots> \<longleftrightarrow> (\<forall>l \<in> set ls. \<not> prefix ''version'' l)"
    by (simp add: grep_version_def filter_empty_conv)
  finally show ?thesis .
qed

text \<open>
  C6 (as amended): when no line of the manifest begins with \<open>version\<close>, or the text between
  the quotes of the first such line is empty, the release command ends at once, with nothing
  changed and no command run. (Nothing else is checked when the version is read.)
\<close>

theorem read_fails_absent_or_empty:
  assumes "map_of (worktree w) ''Cargo.toml'' = Some ls"
    and "(\<forall>l \<in> set ls. \<not> prefix ''version'' l) \<or> current_version (Some ls) = Some []"
  shows "(release e bt w = (Some NoVersionLine, w) \<or> release e bt w = (Some EmptyVersion, w))
         \<and> trace (snd (release e bt w)) = trace w"
  using assms current_version_None_iff [of ls]
  by (auto simp: release_def read_current_version_def)

lemmas version_eval =
  Let_def current_version_def read_current_version_def grep_version_def sed_extract_def
  new_version_def bump_version_def component_def bump_def dotted_def read_version_def not_dot_def
  arith_value_def is_digit_def numeral_val_def digit_val_def show_int_def digits_of.simps
  digit_char_def version_field_def dq_def cargo_manifest_def

lemmas step_eval =
  Let_def preflight_def transaction_def release_steps_def
  check_clean_def git_diff_quiet_def git_diff_cached_quiet_def odd_tag_def check_local_tag_def
  git_fetch_tags_def check_remote_tag_def check_branch_def git_fetch_def check_up_to_date_def
  sed_plain_def write_version_def sed_version_def sed_line_def version_field_def dq_def
  run_cargo_check_def show_log_def ask_message_def user_msg_def commit_message_def
  starts_v_digit_def is_digit_def final_confirm_def checkout_manifest_def git_add_def stage_def
  known_def refused_def git_commit_def git_tag_def git_push_def git_push_tag_def read_r_def
  is_blank_def cargo_manifest_def lock_of_def

lemmas example_eval =
  repo0_def env0_def repo_dirty_source_def repo_remote_tag_def repo_dirty_manifest_def
  env_decline_def clean_repo_def repo_no_version_def repo_short_version_def repo_workspace_def
  env_tag_rejected_def env_message_def manifest_with_dependency_def versinfo_def
  subscript_version_def repo_subscript_def env_bash5_def

text \<open>The release of \<open>v0.1.2\<close> from the clean repository.\<close>

lemma release_repo0:
  "release env0 Patch repo0 =
     (None, repo0\<lparr>worktree := [(''Cargo.toml'', cargo_manifest ''0.1.2''),
                                (''Cargo.lock'', [version_field ''0.1.2'']),
                                (''src/main.rs'', [''fn main() {}''])],
                   index := [(''Cargo.toml'', cargo_manifest ''0.1.2''),
                             (''Cargo.lock'', [version_field ''0.1.2'']),
                             (''src/main.rs'', [''fn main() {}''])],
                   head_tree := [(''Cargo.toml'', cargo_manifest ''0.1.2''),
                                 (''Cargo.lock'', [version_field ''0.1.2'']),
                                 (''src/main.rs'', [''fn main() {}''])],
                   head := 11,
                   tags := [(''v0.1.1'', 10), (''v0.1.2'', 11)],
                   tracking := [(''main'', 11)],
                   origin_heads := [(''main'', 11)],
                   origin_tags := [(''v0.1.1'', 10), (''v0.1.2'', 11)],
                   trace := [FetchTags, Fetch, WriteVersion, CargoCheck, GitAdd,
                             GitCommit ''v0.1.2: '', GitTag ''v0.1.2'', GitPush,
                             GitPushTag ''v0.1.2'']\<rparr>)"
proof -
  have cv: "read_current_version (grep_killed env0) (map_of (worktree repo0) ''Cargo.toml'')
            = Some ''0.1.1''"
    by (simp add: repo0_def env0_def version_eval)
  have nv: "bump_version env0 Patch ''0.1.1'' repo0 = (Some ''0.1.2'', repo0)"
    by (simp add: version_eval)
  show ?thesis
    by (simp add: release_def cv nv)
       (simp add: step_eval repo0_def env0_def cong: old.prod.case_cong_weak)
qed

theorem transaction_order_witness:
  "release env0 Patch repo0 = (None, snd (release env0 Patch repo0))
   \<and> trace (snd (release env0 Patch repo0)) =
       trace repo0 @ [FetchTags, Fetch]
       @ [WriteVersion, CargoCheck, GitAdd, GitCommit ''v0.1.2: '', GitTag ''v0.1.2'', GitPush,
          GitPushTag ''v0.1.2'']
   \<and> map_of (origin_heads (snd (release env0 Patch repo0))) ''main'' = Some 11
   \<and> map_of (origin_tags (snd (release env0 Patch repo0))) ''v0.1.2'' = Some 11
   \<and> push_ok env0 \<and> push_tag_ok env0"
proof -
  have r: "release env0 Patch repo0 = (None, snd (release env0 Patch repo0))"
    by (simp add: release_repo0)
  from transaction_order [OF r] have "push_ok env0 \<and> push_tag_ok env0" by blast
  with r show ?thesis
    by (simp add: release_repo0) (simp add: repo0_def)
qed

theorem preflight_failure_frame_witness:
  "release env0 Patch repo_dirty_source = (Some DirtyWorkingTree, repo_dirty_source)
   \<and> preflight_error DirtyWorkingTree
   \<and> list_all is_digit (component Patch (read_version ''0.1.1''))
   \<and> bump_world env0 Patch repo_dirty_source = repo_dirty_source
   \<and> worktree (snd (release env0 Patch repo_dirty_source)) = worktree repo_dirty_source
   \<and> index (snd (release env0 Patch repo_dirty_source)) = index repo_dirty_source"
proof -
  have cv: "read_current_version (grep_killed env0) (map_of (worktree repo_dirty_source) ''Cargo.toml'')
            = Some ''0.1.1''"
    by (simp add: example_eval version_eval)
  have nv: "bump_version env0 Patch ''0.1.1'' repo_dirty_source = (Some ''0.1.2'', repo_dirty_source)"
    by (simp add: version_eval)
  have r: "release env0 Patch repo_dirty_source = (Some DirtyWorkingTree, repo_dirty_source)"
    by (simp add: release_def cv nv)
       (simp add: step_eval example_eval cong: old.prod.case_cong_weak)
  have p: "preflight_error DirtyWorkingTree" by simp
  have d: "list_all is_digit (component Patch (read_version ''0.1.1''))"
    by (simp add: component_def read_version_def not_dot_def is_digit_def Let_def)
  have "\<forall>cur. read_current_version (grep_killed env0)
              (map_of (worktree repo_dirty_source) ''Cargo.toml'') = Some cur
            \<longrightarrow> list_all is_digit (component Patch (read_version cur))"
    using cv d by simp
  with preflight_failure_frame [OF r p]
  have "bump_world env0 Patch repo_dirty_source = repo_dirty_source" by blast
  with r p d show ?thesis by simp
qed

text \<open>
  C3 (as stated) fails on the references: when the tag of the new version exists on the remote
  only, \<open>git fetch --tags\<close> has created it locally before the remote-tag check ends the run.
\<close>

theorem preflight_fetch_adds_tag:
  "fst (release env0 Patch repo_remote_tag) = Some RemoteTagExists
   \<and> preflight_error RemoteTagExists
   \<and> tags repo_remote_tag = [(''v0.1.1'', 10)]
   \<and> tags (snd (release env0 Patch repo_remote_tag)) = [(''v0.1.1'', 10), (''v0.1.2'', 12)]"
proof -
  have cv: "read_current_version (grep_killed env0) (map_of (worktree repo_remote_tag) ''Cargo.toml'')
            = Some ''0.1.1''"
    by (simp add: example_eval version_eval)
  have nv: "bump_version env0 Patch ''0.1.1'' repo_remote_tag = (Some ''0.1.2'', repo_remote_tag)"
    by (simp add: version_eval)
  show ?thesis
    by (simp add: release_def cv nv)
       (simp add: step_eval example_eval cong: old.prod.case_cong_weak)
qed

text \<open>
  Why the component has to be a numeral: with the patch number \<open>BASH_VERSINFO[$(touch y)]\<close>
  in the manifest, the shell runs \<open>touch y\<close> when it evaluates \<open>$((PATCH + 1))\<close>. The run then
  ends at the first tag check, since \<open>v1.2.6\<close> exists, and the file \<open>y\<close> is in the working
  tree.
\<close>

lemma version_text_runs_command:
  "fst (release env_bash5 Patch repo_subscript) = Some LocalTagExists
   \<and> preflight_error LocalTagExists
   \<and> map_of (worktree repo_subscript) ''y'' = None
   \<and> map_of (worktree (snd (release env_bash5 Patch repo_subscript))) ''y'' = Some []"
proof -
  have cv: "read_current_version (grep_killed env_bash5) (map_of (worktree repo_subscript) ''Cargo.toml'')
            = Some subscript_version"
    by (simp add: example_eval version_eval)
  have nv: "new_version Patch subscript_version = Inl versinfo"
    by (simp add: subscript_version_def versinfo_def new_version_def Let_def component_def
        read_version_def not_dot_def arith_value_def is_digit_def)
  have rv: "read_version subscript_version = \<lparr>MAJOR = ''1'', MINOR = ''2'', PATCH = versinfo\<rparr>"
    by (simp add: subscript_version_def versinfo_def read_version_def not_dot_def Let_def)
  have sh: "shell_arith env_bash5 versinfo v w
            = (Value 5, v, w\<lparr>worktree := worktree w @ [(''y'', [])]\<rparr>)" for v w
    by (simp add: env_bash5_def env0_def)
  have bv: "bump_version env_bash5 Patch subscript_version repo_subscript
            = (Some ''1.2.6'', repo_subscript\<lparr>worktree := worktree repo_subscript @ [(''y'', [])]\<rparr>)"
    by (simp add: bump_version_def nv rv sh bump_def dotted_def show_int_def digits_of.simps
        digit_char_def)
  show ?thesis
    by (simp add: release_def cv bv)
       (simp add: step_eval example_eval cong: old.prod.case_cong_weak)
qed

text \<open>
  C2: a manifest with an uncommitted edit passes the safety checks, which leave \<open>Cargo.toml\<close>
  and \<open>Cargo.lock\<close> out of the dirty-tree check. When the operator then declines the push,
  \<open>git checkout -- Cargo.toml Cargo.lock\<close> restores the manifest from the index: the version is
  back, and the edit is gone. The working tree is not what it was before the command.
\<close>

theorem decline_discards_manifest_edit:
  "fst (release env_decline Patch repo_dirty_manifest) = Some PushDeclined
   \<and> map_of (worktree repo_dirty_manifest) ''Cargo.toml''
       = Some (cargo_manifest ''0.1.1'' @ [''[features]''])
   \<and> map_of (worktree (snd (release env_decline Patch repo_dirty_manifest))) ''Cargo.toml''
       = Some (cargo_manifest ''0.1.1'')"
proof -
  have cv: "read_current_version (grep_killed env_decline)
              (map_of (worktree repo_dirty_manifest) ''Cargo.toml'') = Some ''0.1.1''"
    by (simp add: example_eval version_eval)
  have nv: "bump_version env_decline Patch ''0.1.1'' repo_dirty_manifest
            = (Some ''0.1.2'', repo_dirty_manifest)"
    by (simp add: version_eval)
  show ?thesis
    by (simp add: release_def cv nv)
       (simp add: step_eval example_eval cong: old.prod.case_cong_weak)
qed

lemma write_version_effect:
  assumes "write_version e cur new w = (r, w')"
  shows "(r = Some SedFailed \<and> w' = w)
       \<or> (r = None \<and> index w' = index w
           \<and> (\<exists>ls. worktree w' = AList.update ''Cargo.toml'' ls (worktree w)))"
  using assms by (auto simp: write_version_def split: option.splits if_splits)

lemma run_cargo_check_effect:
  assumes "run_cargo_check e w = (r, w')"
  shows "(r = Some CargoCheckFailed \<and> w' = w)
       \<or> (r = None \<and> index w' = index w
           \<and> (\<exists>lock. worktree w' = AList.update ''Cargo.lock'' lock (worktree w)))"
  using assms by (auto simp: run_cargo_check_def split: option.splits)

lemma show_log_effect:
  assumes "show_log e w = (r, w')"
  shows "w' = w \<and> (r = None \<or> r = Some LogFailed)"
  using assms by (auto simp: show_log_def split: if_splits)

lemma ask_message_effect:
  assumes "ask_message e w = (r, w')"
  shows "w' = w \<and> (r = None \<or> r = Some (PromptClosed MessagePrompt))"
  using assms by (auto simp: ask_message_def split: option.splits)

lemma final_confirm_effect:
  assumes "final_confirm e w = (r, w')"
  shows "(r = Some PushDeclined \<and> w' = checkout_manifest w)
       \<or> (r = Some (PromptClosed PushPrompt) \<and> w' = w) \<or> (r = None \<and> w' = w)"
  using assms by (auto simp: final_confirm_def split: option.splits if_splits)

lemma transaction_not_declined:
  assumes "run (transaction e tag msg) w = (r, w')"
  shows "r \<noteq> Some PushDeclined"
proof -
  have "f \<in> set (transaction e tag msg) \<Longrightarrow> f v = (q, v') \<Longrightarrow>
        True \<and> (\<forall>err. q = Some err \<longrightarrow> err \<noteq> PushDeclined)" for f v q v'
    by (auto simp: transaction_def git_add_def git_commit_def git_tag_def git_push_def
        git_push_tag_def split: if_splits option.splits)
  from run_invariant [where R = "\<lambda>a b. True" and E = "\<lambda>err. err \<noteq> PushDeclined", OF this _ _ assms]
  show ?thesis by auto
qed

lemma later_steps_declined:
  assumes "run ([write_version e cur new, run_cargo_check e, show_log e, ask_message e, final_confirm e]
                @ transaction e tag msg) w = (Some PushDeclined, w')"
  shows "\<exists>ls lock w4. worktree w4 = AList.update ''Cargo.lock'' lock (AList.update ''Cargo.toml'' ls (worktree w))
           \<and> index w4 = index w \<and> w' = checkout_manifest w4"
proof -
  obtain r1 w1 where 1: "write_version e cur new w = (r1, w1)" by (cases "write_version e cur new w")
  obtain r2 w2 where 2: "run_cargo_check e w1 = (r2, w2)" by (cases "run_cargo_check e w1")
  obtain r3 w3 where 3: "show_log e w2 = (r3, w3)" by (cases "show_log e w2")
  obtain r4 w4 where 4: "ask_message e w3 = (r4, w4)" by (cases "ask_message e w3")
  obtain r5 w5 where 5: "final_confirm e w4 = (r5, w5)" by (cases "final_confirm e w4")
  obtain r6 w6 where 6: "run (transaction e tag msg) w5 = (r6, w6)"
    by (cases "run (transaction e tag msg) w5")
  note e1 = write_version_effect [OF 1] and e2 = run_cargo_check_effect [OF 2]
    and e3 = show_log_effect [OF 3] and e4 = ask_message_effect [OF 4]
    and e5 = final_confirm_effect [OF 5] and e6 = transaction_not_declined [OF 6]
  from assms 1 e1 have n1: "r1 = None" by (cases r1) auto
  from assms 1 2 n1 e2 have n2: "r2 = None" by (cases r2) auto
  from assms 1 2 3 n1 n2 e3 have n3: "r3 = None" by (cases r3) auto
  from assms 1 2 3 4 n1 n2 n3 e4 have n4: "r4 = None" by (cases r4) auto
  from assms 1 2 3 4 5 6 n1 n2 n3 n4 e5 e6 have r5: "r5 = Some PushDeclined" "w' = w5"
    by (cases r5; auto)+
  from e1 n1 obtain ls where w1: "worktree w1 = AList.update ''Cargo.toml'' ls (worktree w)"
    "index w1 = index w" by auto
  from e2 n2 obtain lock where w2: "worktree w2 = AList.update ''Cargo.lock'' lock (worktree w1)"
    "index w2 = index w1" by auto
  from e3 e4 have w4: "w4 = w2" by simp
  from e5 r5 have "w' = checkout_manifest w4" by auto
  with w1 w2 w4 show ?thesis by auto
qed

text \<open>
  The declined push does restore the working tree when the two files were tracked and had no
  uncommitted change before the run, and the shell has changed nothing at the bump: then
  every file of the working tree has its old content.
\<close>

lemma decline_restores_clean_manifest:
  assumes run: "release e bt w = (Some PushDeclined, w')"
    and bump: "bump_world e bt w = w"
    and toml: "map_of (index w) ''Cargo.toml'' = map_of (worktree w) ''Cargo.toml''"
    and lock: "map_of (index w) ''Cargo.lock'' = map_of (worktree w) ''Cargo.lock''"
    and tracked: "map_of (index w) ''Cargo.lock'' \<noteq> None"
  shows "map_of (worktree w') = map_of (worktree w)"
  using run
proof (cases rule: release_cases)
  case (unread err)
  then show ?thesis by auto
next
  case exit
  then show ?thesis by simp
next
  case (steps cur new)
  from steps(1) obtain m where m: "map_of (worktree w) ''Cargo.toml'' = Some m"
    by (cases "map_of (worktree w) ''Cargo.toml''") (simp_all add: read_current_version_def)
  from tracked lock obtain l where l: "map_of (worktree w) ''Cargo.lock'' = Some l"
    by (cases "map_of (worktree w) ''Cargo.lock''") simp_all
  from steps(4) bump have "run (release_steps e cur new) w = (Some PushDeclined, w')" by simp
  then show ?thesis
  proof (cases rule: release_steps_cases)
    case (preflight err)
    with preflight_frame [OF preflight(2)] show ?thesis by simp
  next
    case (later w1)
    from preflight_frame [OF later(1)] have f: "worktree w1 = worktree w" "index w1 = index w"
      by (simp_all add: fetched_def)
    from later_steps_declined [OF later(2)] f obtain ls lk w3 where
      w3: "worktree w3 = AList.update ''Cargo.lock'' lk (AList.update ''Cargo.toml'' ls (worktree w))"
        "index w3 = index w" "w' = checkout_manifest w3"
      by auto
    have "worktree w' =
        AList.update ''Cargo.lock'' l (AList.update ''Cargo.toml'' m (worktree w3))"
      using w3 toml lock m l by (simp add: checkout_manifest_def)
    then have "map_of (worktree w') =
        (map_of (worktree w))(''Cargo.toml'' \<mapsto> m, ''Cargo.lock'' \<mapsto> l)"
      using w3(1) by (simp add: update_conv' fun_eq_iff)
    also have "\<dots> = map_of (worktree w)"
      using m l by (auto simp: fun_eq_iff)
    finally show ?thesis .
  qed
qed

theorem read_fails_absent_or_empty_witness:
  "release env0 Patch repo_no_version = (Some NoVersionLine, repo_no_version)"
proof -
  have m: "map_of (worktree repo_no_version) ''Cargo.toml'' = Some [''[package]'', ''edition = 2021'']"
    by (simp add: example_eval)
  have v: "(\<forall>l \<in> set [''[package]'', ''edition = 2021'']. \<not> prefix ''version'' l)
           \<or> current_version (Some [''[package]'', ''edition = 2021'']) = Some []"
    by simp
  have "release env0 Patch repo_no_version \<noteq> (Some EmptyVersion, repo_no_version)"
    by (simp add: release_def m read_current_version_def current_version_def grep_version_def)
  with read_fails_absent_or_empty [OF m v, of env0 Patch] show ?thesis by simp
qed

text \<open>
  C6 (as stated) fails for a version that is not a dotted triple: the version \<open>1.2\<close> is read
  without complaint, the missing patch number counts as 0, and \<open>v1.2.1\<close> is released.
\<close>

theorem short_version_is_released:
  "current_version (map_of (worktree repo_short_version) ''Cargo.toml'') = Some ''1.2''
   \<and> fst (release env0 Patch repo_short_version) = None
   \<and> trace (snd (release env0 Patch repo_short_version)) =
       [FetchTags, Fetch, WriteVersion, CargoCheck, GitAdd, GitCommit ''v1.2.1: '',
        GitTag ''v1.2.1'', GitPush, GitPushTag ''v1.2.1'']"
proof -
  have cv0: "current_version (map_of (worktree repo_short_version) ''Cargo.toml'') = Some ''1.2''"
    by (simp add: example_eval version_eval)
  have cv: "read_current_version (grep_killed env0) (map_of (worktree repo_short_version) ''Cargo.toml'')
            = Some ''1.2''"
    by (simp add: example_eval version_eval)
  have nv: "bump_version env0 Patch ''1.2'' repo_short_version = (Some ''1.2.1'', repo_short_version)"
    by (simp add: version_eval)
  show ?thesis
    by (simp add: cv0 release_def cv nv)
       (simp add: step_eval example_eval cong: old.prod.case_cong_weak)
qed



text \<open>
  C8: the substitution runs on every line of the manifest. With a dependency table whose
  version line is the same as that of the package, the write changes both lines, not only the
  version field that \<open>current_version\<close> reads (the first one).
\<close>

theorem sed_rewrites_dependency:
  "current_version (Some manifest_with_dependency) = Some ''0.1.1''
   \<and> manifest_with_dependency =
       [''[package]'', ''edition = 2021'', version_field ''0.1.1'',
        ''[dependencies.shelldeck-core]'', version_field ''0.1.1'']
   \<and> sed_version ''0.1.1'' ''0.1.2'' manifest_with_dependency =
       [''[package]'', ''edition = 2021'', version_field ''0.1.2'',
        ''[dependencies.shelldeck-core]'', version_field ''0.1.2'']"
  by (simp add: manifest_with_dependency_def cargo_manifest_def current_version_def
      grep_version_def sed_extract_def sed_version_def sed_line_def version_field_def dq_def Let_def)

text \<open>
  What the write does preserve: the number of lines, and every line that does not begin with
  \<open>version = \<close>.
\<close>

lemma sed_version_frame:
  "length (sed_version cur new ls) = length ls
   \<and> (\<forall>i < length ls. \<not> prefix ''version = '' (ls ! i) \<longrightarrow> sed_version cur new ls ! i = ls ! i)"
proof -
  have m: "match_prefix (p @ q) l \<noteq> None \<Longrightarrow> CHR ''.'' \<notin> set p \<Longrightarrow> prefix p l" for p q l
  proof (induction p arbitrary: l)
    case Nil
    then show ?case by simp
  next
    case (Cons a p)
    then show ?case by (cases l) (auto split: if_splits)
  qed
  have "\<not> prefix ''version = '' l \<Longrightarrow> sed_line cur new l = l" for l
    using m [of "''version = ''" "[dq] @ cur @ [dq]" l]
    by (auto simp: sed_line_def version_field_def split: option.splits)
  then show ?thesis by (simp add: sed_version_def)
qed

end
